theory Spec2Isabelle
  imports Main
begin

section \<open>The inline sequence journal of libjst\<close>

text \<open>
  This theory embeds \<^verbatim>\<open>libjst/journal/inline_sequence_journal.hpp\<close>: the class template
  \<^verbatim>\<open>inline_sequence_journal\<close> with its nested classes \<^verbatim>\<open>record_impl\<close> and
  \<^verbatim>\<open>breakend_impl\<close>.

  Symbols live in a flat memory \<open>mem :: nat \<Rightarrow> 'a\<close>; an iterator into a sequence is the
  address of a symbol, and the value-initialised iterator is address \<open>0\<close>. An iterator into
  the vector \<^verbatim>\<open>_journal\<close> is an index into the list that models the vector. Where the C++
  has undefined behaviour (an iterator outside its range) the model returns \<open>None\<close>; the
  source contains no \<^verbatim>\<open>throw\<close>, so \<open>None\<close> is never a reported error.
\<close>

subsection \<open>Machine integers\<close>

text \<open>
  \<^verbatim>\<open>size_type\<close> is the 64-bit unsigned \<^verbatim>\<open>std::size_t\<close> and is modelled by \<open>nat\<close>;
  \<^verbatim>\<open>std::ptrdiff_t\<close> is the 64-bit signed integer and is modelled by \<open>int\<close>. The two
  conversions below write out the wrap-around of every mixed expression of the source.
\<close>

definition size_cast :: "int \<Rightarrow> nat" where
  "size_cast x = nat (x mod 2 ^ 64)"

definition ptrdiff_cast :: "int \<Rightarrow> int" where
  "ptrdiff_cast x = (x + 2 ^ 63) mod 2 ^ 64 - 2 ^ 63"

subsection \<open>Sequence slices\<close>

text \<open>
  \<^verbatim>\<open>sequence_type\<close> is \<^verbatim>\<open>libjst::breakpoint_slice_t<source_t const>\<close>, a view that
  borrows the symbols it spells: the address of its first symbol and its size.
\<close>

record sequence_type =
  seq_begin :: nat
  seq_size :: nat

definition seq_end :: "sequence_type \<Rightarrow> nat" where
  "seq_end s = seq_begin s + seq_size s"

text \<open>The value-initialised slice \<^verbatim>\<open>sequence_type{}\<close>.\<close>

definition empty_sequence :: sequence_type where
  "empty_sequence = \<lparr>seq_begin = 0, seq_size = 0\<rparr>"

text \<open>The symbols a slice spells in memory \<open>mem\<close>.\<close>

definition spell :: "(nat \<Rightarrow> 'a) \<Rightarrow> sequence_type \<Rightarrow> 'a list" where
  "spell mem s = map mem [seq_begin s ..< seq_end s]"

text \<open>
  Modelled from the spec: \<^verbatim>\<open>libjst::to_breakpoint\<close> and \<^verbatim>\<open>libjst::breakpoint_slice\<close>
  are customisation points defined outside \<^verbatim>\<open>inline_sequence_journal.hpp\<close>. A breakpoint
  is the pair \<open>(lo, hi)\<close> of offsets of a half-open interval on the sequence, and
  \<^verbatim>\<open>slice(S, bp)\<close> is the zero-copy half-open view of \<open>S\<close> over \<open>[lo, hi)\<close>.
\<close>

definition to_breakpoint :: "sequence_type \<Rightarrow> nat \<Rightarrow> nat \<Rightarrow> nat \<times> nat" where
  "to_breakpoint segment from to = (from - seq_begin segment, to - seq_begin segment)"

definition breakpoint_slice :: "sequence_type \<Rightarrow> nat \<times> nat \<Rightarrow> sequence_type" where
  "breakpoint_slice segment bp =
     \<lparr>seq_begin = seq_begin segment + fst bp, seq_size = snd bp - fst bp\<rparr>"

definition get_breakpoint_slice :: "sequence_type \<Rightarrow> nat \<Rightarrow> nat \<Rightarrow> sequence_type" where
  "get_breakpoint_slice segment from to =
     breakpoint_slice segment (to_breakpoint segment from to)"

subsection \<open>Journal records\<close>

record record_impl =
  position :: nat
  sequence :: sequence_type

text \<open>\<^verbatim>\<open>record_impl::operator==\<close>.\<close>

definition record_eq :: "record_impl \<Rightarrow> record_impl \<Rightarrow> bool" where
  "record_eq lhs rhs \<longleftrightarrow>
     position lhs = position rhs \<and>
     seq_begin (sequence lhs) = seq_begin (sequence rhs) \<and>
     seq_size (sequence lhs) = seq_size (sequence rhs)"

type_synonym journal_type = "record_impl list"

subsection \<open>Breakends\<close>

record breakend_impl =
  journal_it :: nat
  sequence_it :: nat

type_synonym breakpoint_type = "breakend_impl \<times> breakend_impl"

text \<open>
  A breakend is dereferenceable in journal \<open>J\<close> when its journal iterator addresses a
  record of the vector (the sentinel included) and its sequence iterator is an iterator of
  that record's segment, the end iterator included.
\<close>

definition valid_breakend :: "journal_type \<Rightarrow> breakend_impl \<Rightarrow> bool" where
  "valid_breakend J b \<longleftrightarrow>
     journal_it b < length J \<and>
     seq_begin (sequence (J ! journal_it b)) \<le> sequence_it b \<and>
     sequence_it b \<le> seq_end (sequence (J ! journal_it b))"

text \<open>
  \<^verbatim>\<open>breakend_impl::operator integral_t\<close> at \<^verbatim>\<open>integral_t = std::ptrdiff_t\<close>: the sum is
  formed in \<^verbatim>\<open>size_type\<close> and then converted.
\<close>

definition to_integral :: "journal_type \<Rightarrow> breakend_impl \<Rightarrow> int option" where
  "to_integral J b =
     (if journal_it b < length J
      then Some (ptrdiff_cast (int (size_cast
             (int (position (J ! journal_it b)) +
              (int (sequence_it b) - int (seq_begin (sequence (J ! journal_it b))))))))
      else None)"

text \<open>\<^verbatim>\<open>operator-\<close> of two breakends.\<close>

definition breakend_minus :: "journal_type \<Rightarrow> breakend_impl \<Rightarrow> breakend_impl \<Rightarrow> int option" where
  "breakend_minus J lhs rhs =
     (case to_integral J lhs of
        None \<Rightarrow> None
      | Some l \<Rightarrow> (case to_integral J rhs of None \<Rightarrow> None | Some r \<Rightarrow> Some (l - r)))"

text \<open>
  The defaulted \<^verbatim>\<open>operator<=>\<close> and \<^verbatim>\<open>operator==\<close> of \<^verbatim>\<open>breakend_impl\<close> compare the
  members in declaration order: \<^verbatim>\<open>_journal_it\<close> first, then \<^verbatim>\<open>_sequence_it\<close>.
\<close>

datatype strong_ordering = Less | Equal | Greater

definition compare_three_way :: "nat \<Rightarrow> nat \<Rightarrow> strong_ordering" where
  "compare_three_way a b = (if a < b then Less else if a = b then Equal else Greater)"

definition breakend_compare :: "breakend_impl \<Rightarrow> breakend_impl \<Rightarrow> strong_ordering" where
  "breakend_compare lhs rhs =
     (case compare_three_way (journal_it lhs) (journal_it rhs) of
        Equal \<Rightarrow> compare_three_way (sequence_it lhs) (sequence_it rhs)
      | c \<Rightarrow> c)"

definition breakend_eq :: "breakend_impl \<Rightarrow> breakend_impl \<Rightarrow> bool" where
  "breakend_eq lhs rhs \<longleftrightarrow>
     journal_it lhs = journal_it rhs \<and> sequence_it lhs = sequence_it rhs"

text \<open>
  Modelled from the spec: \<^verbatim>\<open>libjst::low_breakend\<close>, \<^verbatim>\<open>libjst::high_breakend\<close> and
  \<^verbatim>\<open>libjst::breakend_span\<close> are customisation points defined outside
  \<^verbatim>\<open>inline_sequence_journal.hpp\<close>. A breakpoint of the journal is the pair of its low and
  high breakend (\<^verbatim>\<open>breakpoint_type\<close> is a \<^verbatim>\<open>std::pair\<close>), and \<open>span = hi - lo\<close>, the
  subtraction being \<^verbatim>\<open>operator-\<close> of the breakends.
\<close>

definition low_breakend :: "breakpoint_type \<Rightarrow> breakend_impl" where
  "low_breakend bp = fst bp"

definition high_breakend :: "breakpoint_type \<Rightarrow> breakend_impl" where
  "high_breakend bp = snd bp"

definition breakend_span :: "journal_type \<Rightarrow> breakpoint_type \<Rightarrow> int option" where
  "breakend_span J bp = breakend_minus J (high_breakend bp) (low_breakend bp)"

subsection \<open>Construction and capacity\<close>

text \<open>
  \<^verbatim>\<open>initialize_journal\<close>, called by the constructors on the empty vector. The source
  sequence is given by the memory it occupies.
\<close>

definition initialize_journal :: "sequence_type \<Rightarrow> journal_type" where
  "initialize_journal source =
     (if seq_size source \<noteq> 0
      then [\<lparr>position = 0,
             sequence = breakpoint_slice source
                          (to_breakpoint source (seq_begin source) (seq_end source))\<rparr>]
      else []) @
     [\<lparr>position = seq_size source, sequence = empty_sequence\<rparr>]"

text \<open>\<^verbatim>\<open>begin()\<close> and \<^verbatim>\<open>end()\<close>; \<^verbatim>\<open>_journal.end() - 1\<close> is undefined on an empty vector.\<close>

definition begin_journal :: "journal_type \<Rightarrow> nat" where
  "begin_journal J = 0"

definition end_journal :: "journal_type \<Rightarrow> nat option" where
  "end_journal J = (if J = [] then None else Some (length J - 1))"

text \<open>
  \<^verbatim>\<open>size()\<close> is \<^verbatim>\<open>_journal.size() - 1\<close> in \<^verbatim>\<open>size_type\<close>: the size of a vector is a value of
  \<^verbatim>\<open>size_type\<close>, so the subtraction wraps only on the empty vector. \<^verbatim>\<open>empty()\<close> tests
  \<^verbatim>\<open>size() == 0\<close>.
\<close>

definition size_journal :: "journal_type \<Rightarrow> nat" where
  "size_journal J = (if J = [] then 2 ^ 64 - 1 else length J - 1)"

definition empty_journal :: "journal_type \<Rightarrow> bool" where
  "empty_journal J \<longleftrightarrow> size_journal J = 0"

subsection \<open>Lookup\<close>

text \<open>
  \<^verbatim>\<open>find\<close> is not embedded. Its body is the call
  \<^verbatim>\<open>std::ranges::find(begin(), end(), key, std::ranges::less{}, &record_impl::position)\<close>,
  and \<^verbatim>\<open>std::ranges::find\<close> takes an iterator pair, a value and a projection: no overload
  accepts the five arguments. The member can therefore not be instantiated, and there is no
  behaviour of it to translate.
\<close>

subsection \<open>Recording an edit\<close>

text \<open>\<^verbatim>\<open>split_at\<close>. A breakend that is not dereferenceable is undefined behaviour.\<close>

definition split_at :: "journal_type \<Rightarrow> breakend_impl \<Rightarrow> (record_impl \<times> record_impl) option" where
  "split_at J breakend =
     (if valid_breakend J breakend
      then (let journal_entry = J ! journal_it breakend;
                split_it = sequence_it breakend;
                segment = sequence journal_entry;
                record_prefix = \<lparr>position = position journal_entry,
                                 sequence = get_breakpoint_slice segment (seq_begin segment) split_it\<rparr>;
                split_offset = int split_it - int (seq_begin segment);
                record_suffix = \<lparr>position = size_cast (int (position journal_entry) + split_offset),
                                 sequence = get_breakpoint_slice segment split_it (seq_end segment)\<rparr>
            in Some (record_prefix, record_suffix))
      else None)"

text \<open>\<^verbatim>\<open>force_overwrite_through\<close>: assignment through the iterator.\<close>

definition force_overwrite_through :: "journal_type \<Rightarrow> nat \<Rightarrow> record_impl \<Rightarrow> journal_type" where
  "force_overwrite_through J it r = J[it := r]"

text \<open>
  \<^verbatim>\<open>std::vector::erase(first, last)\<close> and the range \<^verbatim>\<open>insert\<close>; each returns the vector
  and the iterator the C++ call returns.
\<close>

definition erase :: "journal_type \<Rightarrow> nat \<Rightarrow> nat \<Rightarrow> journal_type \<times> nat" where
  "erase J first_it last_it = (take first_it J @ drop last_it J, first_it)"

definition insert_entries :: "journal_type \<Rightarrow> nat \<Rightarrow> record_impl list \<Rightarrow> journal_type \<times> nat" where
  "insert_entries J pos entries = (take pos J @ entries @ drop pos J, pos)"

text \<open>
  \<^verbatim>\<open>update_positions_of_remaining_entries\<close>: the loop from the given iterator to the end of the
  vector, the sum formed in \<^verbatim>\<open>size_type\<close>.
\<close>

fun update_loop :: "int \<Rightarrow> record_impl list \<Rightarrow> record_impl list" where
  "update_loop offset [] = []"
| "update_loop offset (r # rs) =
     \<lparr>position = size_cast (int (position r) + offset), sequence = sequence r\<rparr>
       # update_loop offset rs"

definition update_positions_of_remaining_entries :: "journal_type \<Rightarrow> nat \<Rightarrow> int \<Rightarrow> journal_type" where
  "update_positions_of_remaining_entries J it offset =
     (if offset = 0 then J
      else take it J @ update_loop offset (drop it J))"

text \<open>
  \<^verbatim>\<open>record_inline\<close>. The result is the journal after the call and the returned iterator.
  \<^verbatim>\<open>erase\<close> on a range whose first iterator is behind its last is undefined behaviour.
  The statement \<^verbatim>\<open>assert(check_journal_invariants())\<close> before the return does not change
  the result; \<^verbatim>\<open>check_journal_invariants\<close> is modelled below, and that it holds after a
  valid call is proved.
\<close>

definition record_inline ::
  "journal_type \<Rightarrow> breakpoint_type \<Rightarrow> sequence_type \<Rightarrow> (journal_type \<times> nat) option" where
  "record_inline J breakpoint new_sequence =
     (case breakend_span J breakpoint of
        None \<Rightarrow> None
      | Some deletion_size \<Rightarrow>
     (let insertion_size = ptrdiff_cast (int (seq_size new_sequence)) in
      case split_at J (low_breakend breakpoint) of
        None \<Rightarrow> None
      | Some (low_prefix, low_suffix) \<Rightarrow>
     (case split_at J (high_breakend breakpoint) of
        None \<Rightarrow> None
      | Some (high_prefix, high_suffix) \<Rightarrow>
     (let entries_marked_for_insertion =
            (if seq_size (sequence low_prefix) \<noteq> 0 then [low_prefix] else []) @
            (if insertion_size > 0
             then [\<lparr>position = position low_suffix, sequence = new_sequence\<rparr>] else []);
          marked_insert_entries = length entries_marked_for_insertion;
          from_journal_it = journal_it (low_breakend breakpoint);
          to_journal_it = journal_it (high_breakend breakpoint)
      in if to_journal_it < from_journal_it then None
         else
           (let J1 = force_overwrite_through J to_journal_it high_suffix;
                (J2, insert_position) = erase J1 from_journal_it to_journal_it;
                (J3, first_inserted) = insert_entries J2 insert_position entries_marked_for_insertion;
                J4 = update_positions_of_remaining_entries J3
                       (first_inserted + marked_insert_entries) (insertion_size - deletion_size)
            in Some (J4, first_inserted + marked_insert_entries -
                           (if insertion_size > 0 then 1 else 0)))))))"

text \<open>\<^verbatim>\<open>record\<close>, the public entry point.\<close>

definition record_journal ::
  "journal_type \<Rightarrow> breakpoint_type \<Rightarrow> sequence_type \<Rightarrow> (journal_type \<times> nat) option" where
  "record_journal J breakpoint new_sequence = record_inline J breakpoint new_sequence"

text \<open>
  \<^verbatim>\<open>check_journal_invariants\<close>: the loop over \<open>[begin(), end())\<close> compares each record with
  its successor, the sum formed in \<^verbatim>\<open>size_type\<close>.
\<close>

fun check_adjacent :: "record_impl list \<Rightarrow> bool" where
  "check_adjacent (r # next_record # rs) =
     (if size_cast (int (position r) + int (seq_size (sequence r))) \<noteq> position next_record
      then False
      else check_adjacent (next_record # rs))"
| "check_adjacent rs = True"

definition check_journal_invariants :: "journal_type \<Rightarrow> bool" where
  "check_journal_invariants J =
     (if J = [] \<or> position (hd J) \<noteq> 0 then False else check_adjacent J)"

subsection \<open>The derived sequence\<close>

text \<open>The concatenation of all segments of the journal, in order.\<close>

definition derived :: "(nat \<Rightarrow> 'a) \<Rightarrow> journal_type \<Rightarrow> 'a list" where
  "derived mem J = concat (map (\<lambda>r. spell mem (sequence r)) J)"

section \<open>Notions used to state the properties\<close>

subsection \<open>The journal invariant\<close>

definition segment_size :: "record_impl \<Rightarrow> nat" where
  "segment_size r = seq_size (sequence r)"

definition total_size :: "journal_type \<Rightarrow> nat" where
  "total_size J = sum_list (map segment_size J)"

text \<open>
  \<open>chained p J\<close>: the first record of \<open>J\<close> starts at \<open>p\<close> and every record starts where its
  predecessor ends.
\<close>

fun chained :: "nat \<Rightarrow> journal_type \<Rightarrow> bool" where
  "chained p [] = True"
| "chained p (r # rs) = (position r = p \<and> chained (p + segment_size r) rs)"

text \<open>
  The invariant of the journal: the positions are chained from \<open>0\<close>, the last record is
  the empty sentinel, and the derived sequence is shorter than \<open>2 ^ 63\<close> symbols, the
  largest size a \<^verbatim>\<open>std::ptrdiff_t\<close> can measure.
\<close>

definition journal_inv :: "journal_type \<Rightarrow> bool" where
  "journal_inv J \<longleftrightarrow>
     J \<noteq> [] \<and> chained 0 J \<and> segment_size (last J) = 0 \<and> total_size J < 2 ^ 63"

subsection \<open>Breakends in the derived sequence\<close>

text \<open>
  The place of a breakend in the derived sequence, counted over the segments and
  independent of the stored positions.
\<close>

definition location :: "journal_type \<Rightarrow> breakend_impl \<Rightarrow> nat" where
  "location J b =
     total_size (take (journal_it b) J) +
     (sequence_it b - seq_begin (sequence (J ! journal_it b)))"

text \<open>
  The linear offset \<open>pos(record) + distance(record.begin, symbol)\<close> of a breakend, as an
  unbounded integer.
\<close>

definition linear_offset :: "journal_type \<Rightarrow> breakend_impl \<Rightarrow> int" where
  "linear_offset J b =
     int (position (J ! journal_it b)) +
     (int (sequence_it b) - int (seq_begin (sequence (J ! journal_it b))))"

text \<open>
  A call \<^verbatim>\<open>record(bp, alt)\<close> is valid when both breakends are dereferenceable, the low
  breakend is not behind the high one, and the edited sequence stays shorter than
  \<open>2 ^ 63\<close> symbols.
\<close>

definition valid_record_call :: "journal_type \<Rightarrow> breakpoint_type \<Rightarrow> sequence_type \<Rightarrow> bool" where
  "valid_record_call J bp alt \<longleftrightarrow>
     valid_breakend J (low_breakend bp) \<and> valid_breakend J (high_breakend bp) \<and>
     breakend_compare (low_breakend bp) (high_breakend bp) \<noteq> Greater \<and>
     total_size J + seq_size alt < 2 ^ 63"

subsection \<open>The records an edit produces\<close>

text \<open>
  The entry at a breakend, split into the part before it (\<open>P\<close> at the low breakend) and the
  part from it on (\<open>Q\<close> at the high breakend), and the entries placed between them.
\<close>

definition prefix_record :: "journal_type \<Rightarrow> breakend_impl \<Rightarrow> record_impl" where
  "prefix_record J b =
     \<lparr>position = position (J ! journal_it b),
      sequence = \<lparr>seq_begin = seq_begin (sequence (J ! journal_it b)),
                  seq_size = sequence_it b - seq_begin (sequence (J ! journal_it b))\<rparr>\<rparr>"

definition suffix_record :: "journal_type \<Rightarrow> breakend_impl \<Rightarrow> record_impl" where
  "suffix_record J b =
     \<lparr>position = location J b,
      sequence = \<lparr>seq_begin = sequence_it b,
                  seq_size = seq_end (sequence (J ! journal_it b)) - sequence_it b\<rparr>\<rparr>"

definition inserted_entries :: "journal_type \<Rightarrow> breakend_impl \<Rightarrow> sequence_type \<Rightarrow> record_impl list" where
  "inserted_entries J lo alt =
     (if sequence_it lo \<noteq> seq_begin (sequence (J ! journal_it lo)) then [prefix_record J lo] else []) @
     (if seq_size alt \<noteq> 0 then [\<lparr>position = location J lo, sequence = alt\<rparr>] else [])"

definition add_to_position :: "int \<Rightarrow> record_impl \<Rightarrow> record_impl" where
  "add_to_position k r = r\<lparr>position := nat (int (position r) + k)\<rparr>"

text \<open>
  The amount \<open>i - d\<close> of an edit: the length of \<open>alt\<close> minus the span of the breakpoint in the
  derived sequence.
\<close>

definition edit_shift :: "journal_type \<Rightarrow> breakpoint_type \<Rightarrow> sequence_type \<Rightarrow> int" where
  "edit_shift J bp alt =
     int (seq_size alt) -
     (int (location J (high_breakend bp)) - int (location J (low_breakend bp)))"

subsection \<open>Sequences of calls\<close>

type_synonym record_call = "breakpoint_type \<times> sequence_type"

text \<open>Running a list of \<^verbatim>\<open>record\<close> calls, each on the journal the previous one left.\<close>

fun record_all :: "journal_type \<Rightarrow> record_call list \<Rightarrow> journal_type option" where
  "record_all J [] = Some J"
| "record_all J ((bp, alt) # calls) =
     (case record_journal J bp alt of
        None \<Rightarrow> None
      | Some (J', it) \<Rightarrow> record_all J' calls)"

fun valid_calls :: "journal_type \<Rightarrow> record_call list \<Rightarrow> bool" where
  "valid_calls J [] = True"
| "valid_calls J ((bp, alt) # calls) =
     (valid_record_call J bp alt \<and>
      (case record_journal J bp alt of
         None \<Rightarrow> False
       | Some (J', it) \<Rightarrow> valid_calls J' calls))"

text \<open>
  The edits on plain sequences: the interval \<open>[lo, hi)\<close> of \<open>D\<close> is replaced by \<open>alt\<close>. The
  edits of a list of calls are applied to a sequence in the same order, each at the places
  its breakends have in the current journal.
\<close>

definition apply_edit :: "'a list \<Rightarrow> nat \<Rightarrow> nat \<Rightarrow> 'a list \<Rightarrow> 'a list" where
  "apply_edit D lo hi alt = take lo D @ alt @ drop hi D"

fun apply_edits :: "(nat \<Rightarrow> 'a) \<Rightarrow> journal_type \<Rightarrow> record_call list \<Rightarrow> 'a list \<Rightarrow> 'a list" where
  "apply_edits mem J [] D = D"
| "apply_edits mem J ((bp, alt) # calls) D =
     (case record_journal J bp alt of
        None \<Rightarrow> D
      | Some (J', it) \<Rightarrow>
          apply_edits mem J' calls
            (apply_edit D (location J (low_breakend bp)) (location J (high_breakend bp))
               (spell mem alt)))"

subsection \<open>Empty records\<close>

text \<open>Two neighbouring records with empty segments.\<close>

fun adjacent_empty :: "journal_type \<Rightarrow> bool" where
  "adjacent_empty (r # n # rs) =
     ((segment_size r = 0 \<and> segment_size n = 0) \<or> adjacent_empty (n # rs))"
| "adjacent_empty rs = False"

text \<open>A breakend at the end of the segment of a record other than the sentinel.\<close>

definition ends_segment :: "journal_type \<Rightarrow> breakend_impl \<Rightarrow> bool" where
  "ends_segment J b \<longleftrightarrow>
     Suc (journal_it b) < length J \<and> sequence_it b = seq_end (sequence (J ! journal_it b))"

text \<open>Valid calls none of whose high breakends is at the end of such a segment.\<close>

fun inner_calls :: "journal_type \<Rightarrow> record_call list \<Rightarrow> bool" where
  "inner_calls J [] = True"
| "inner_calls J ((bp, alt) # calls) =
     (valid_record_call J bp alt \<and> \<not> ends_segment J (high_breakend bp) \<and>
      (case record_journal J bp alt of
         None \<Rightarrow> False
       | Some (J', it) \<Rightarrow> inner_calls J' calls))"

section \<open>Auxiliary facts\<close>

text \<open>The definitions to unfold when a call is evaluated on a concrete journal.\<close>

lemmas journal_defs =
  initialize_journal_def record_journal_def record_inline_def valid_record_call_def
  valid_breakend_def breakend_compare_def compare_three_way_def breakend_span_def
  breakend_minus_def to_integral_def split_at_def low_breakend_def high_breakend_def
  get_breakpoint_slice_def breakpoint_slice_def to_breakpoint_def seq_end_def
  empty_sequence_def size_cast_def ptrdiff_cast_def force_overwrite_through_def erase_def
  insert_entries_def update_positions_of_remaining_entries_def total_size_def
  segment_size_def location_def spell_def Let_def

lemma size_cast_id: "0 \<le> x \<Longrightarrow> x < 2 ^ 64 \<Longrightarrow> size_cast x = nat x"
  by (simp add: size_cast_def)

lemma size_cast_nat: "n < 2 ^ 64 \<Longrightarrow> size_cast (int n) = n"
  by (simp add: size_cast_def)

lemma ptrdiff_cast_id: "- (2 ^ 63) \<le> x \<Longrightarrow> x < 2 ^ 63 \<Longrightarrow> ptrdiff_cast x = x"
  by (simp add: ptrdiff_cast_def)

lemma total_size_append [simp]: "total_size (xs @ ys) = total_size xs + total_size ys"
  by (simp add: total_size_def)

lemma total_size_Cons [simp]: "total_size (r # rs) = segment_size r + total_size rs"
  by (simp add: total_size_def)

lemma total_size_Nil [simp]: "total_size [] = 0"
  by (simp add: total_size_def)

lemma chained_append: "chained p (xs @ ys) \<longleftrightarrow> chained p xs \<and> chained (p + total_size xs) ys"
  by (induction xs arbitrary: p) (auto simp: add.assoc)

lemma chained_nth: "chained p J \<Longrightarrow> k < length J \<Longrightarrow> position (J ! k) = p + total_size (take k J)"
proof (induction J arbitrary: p k)
  case Nil
  then show ?case by simp
next
  case (Cons r rs)
  show ?case
  proof (cases k)
    case 0
    with Cons.prems show ?thesis by simp
  next
    case (Suc j)
    with Cons.prems Cons.IH [of "p + segment_size r" j] show ?thesis by simp
  qed
qed

lemma total_size_take_le: "total_size (take k J) \<le> total_size J"
proof -
  have "total_size J = total_size (take k J) + total_size (drop k J)"
    by (metis append_take_drop_id total_size_append)
  then show ?thesis by simp
qed

lemma total_size_take_nth_le:
  assumes "k < length J"
  shows "total_size (take k J) + segment_size (J ! k) \<le> total_size J"
proof -
  have "J = take k J @ J ! k # drop (Suc k) J"
    using assms by (rule id_take_nth_drop)
  then have "total_size J = total_size (take k J) + (segment_size (J ! k) + total_size (drop (Suc k) J))"
    by (metis total_size_append total_size_Cons)
  then show ?thesis by simp
qed

lemma length_spell [simp]: "length (spell mem s) = seq_size s"
  by (simp add: spell_def seq_end_def)

lemma length_derived: "length (derived mem J) = total_size J"
  by (induction J) (simp_all add: derived_def segment_size_def)

lemma derived_append [simp]: "derived mem (xs @ ys) = derived mem xs @ derived mem ys"
  by (simp add: derived_def)

lemma derived_Cons [simp]: "derived mem (r # rs) = spell mem (sequence r) @ derived mem rs"
  by (simp add: derived_def)

lemma derived_Nil [simp]: "derived mem [] = []"
  by (simp add: derived_def)

lemma length_update_loop [simp]: "length (update_loop off xs) = length xs"
  by (induction xs) simp_all

lemma derived_update_loop [simp]: "derived mem (update_loop off xs) = derived mem xs"
  by (induction xs) simp_all

lemma total_size_update_loop [simp]: "total_size (update_loop off xs) = total_size xs"
  by (induction xs) (simp_all add: segment_size_def)

lemma int_less_63: "n < 2 ^ 63 \<Longrightarrow> int n < 2 ^ 63"
  by (metis of_nat_less_iff of_nat_numeral of_nat_power)

lemma nat_63_64: "n < 2 ^ 63 \<Longrightarrow> (n::nat) < 2 ^ 64"
  by (rule less_trans [where y = "2 ^ 63"]) simp_all

lemma position_eq_total:
  assumes "journal_inv J" "k < length J"
  shows "position (J ! k) = total_size (take k J)"
  using assms chained_nth [of 0 J k] by (simp add: journal_inv_def)

lemma location_le_total:
  assumes "valid_breakend J b"
  shows "location J b \<le> total_size J"
proof -
  have "sequence_it b - seq_begin (sequence (J ! journal_it b)) \<le> segment_size (J ! journal_it b)"
    using assms unfolding valid_breakend_def seq_end_def segment_size_def by arith
  moreover have "total_size (take (journal_it b) J) + segment_size (J ! journal_it b) \<le> total_size J"
    using assms by (simp add: valid_breakend_def total_size_take_nth_le)
  ultimately show ?thesis by (simp add: location_def)
qed

lemma split_at_valid:
  assumes "journal_inv J" "valid_breakend J b"
  shows "split_at J b = Some (prefix_record J b, suffix_record J b)"
proof -
  let ?r = "J ! journal_it b"
  have k: "journal_it b < length J" and lo: "seq_begin (sequence ?r) \<le> sequence_it b"
    using assms(2) by (simp_all add: valid_breakend_def)
  have pos: "position ?r = total_size (take (journal_it b) J)"
    using assms(1) k by (rule position_eq_total)
  have loc: "int (position ?r) + (int (sequence_it b) - int (seq_begin (sequence ?r))) = int (location J b)"
    using lo pos by (simp add: location_def)
  have "location J b < 2 ^ 64"
  proof -
    have "location J b \<le> total_size J" using assms(2) by (rule location_le_total)
    moreover have "total_size J < 2 ^ 63" using assms(1) by (simp add: journal_inv_def)
    ultimately have "location J b < 2 ^ 63" by (rule le_less_trans)
    then show ?thesis by (rule nat_63_64)
  qed
  then have "size_cast (int (location J b)) = location J b"
    by (rule size_cast_nat)
  with loc assms(2) lo show ?thesis
    by (simp add: split_at_def Let_def prefix_record_def suffix_record_def
        get_breakpoint_slice_def breakpoint_slice_def to_breakpoint_def)
qed

lemma to_integral_valid:
  assumes "journal_inv J" "valid_breakend J b"
  shows "to_integral J b = Some (int (location J b))"
proof -
  let ?r = "J ! journal_it b"
  have k: "journal_it b < length J" and lo: "seq_begin (sequence ?r) \<le> sequence_it b"
    using assms(2) by (simp_all add: valid_breakend_def)
  have pos: "position ?r = total_size (take (journal_it b) J)"
    using assms(1) k by (rule position_eq_total)
  have loc: "int (position ?r) + (int (sequence_it b) - int (seq_begin (sequence ?r))) = int (location J b)"
    using lo pos by (simp add: location_def)
  have bound: "location J b < 2 ^ 63"
  proof -
    have "location J b \<le> total_size J" using assms(2) by (rule location_le_total)
    moreover have "total_size J < 2 ^ 63" using assms(1) by (simp add: journal_inv_def)
    ultimately show ?thesis by (rule le_less_trans)
  qed
  then have "location J b < 2 ^ 64" by (rule nat_63_64)
  then have sc: "size_cast (int (location J b)) = location J b"
    by (rule size_cast_nat)
  have "int (location J b) < 2 ^ 63" using bound by (rule int_less_63)
  then have "ptrdiff_cast (int (location J b)) = int (location J b)"
    by (simp add: ptrdiff_cast_id)
  with loc sc k show ?thesis by (simp add: to_integral_def)
qed

lemma update_loop_exact:
  assumes "\<forall>r \<in> set xs. 0 \<le> int (position r) + off \<and> int (position r) + off < 2 ^ 64"
  shows "update_loop off xs = map (add_to_position off) xs"
  using assms by (induction xs) (simp_all add: add_to_position_def size_cast_id)

lemma add_to_position_0: "map (add_to_position 0) xs = xs"
  by (induction xs) (simp_all add: add_to_position_def)

lemma total_size_take_mono:
  assumes "a \<le> b"
  shows "total_size (take a J) \<le> total_size (take b J)"
proof -
  have "take a J = take a (take b J)" using assms by (simp add: min_def)
  then show ?thesis by (metis total_size_take_le)
qed

lemma total_size_take_Suc:
  assumes "k < length J"
  shows "total_size (take (Suc k) J) = total_size (take k J) + segment_size (J ! k)"
  using assms by (simp add: take_Suc_conv_app_nth)

lemma offset_le_segment:
  assumes "valid_breakend J b"
  shows "sequence_it b - seq_begin (sequence (J ! journal_it b)) \<le> segment_size (J ! journal_it b)"
  using assms unfolding valid_breakend_def seq_end_def segment_size_def by arith

lemma location_mono:
  assumes "valid_breakend J lo" "valid_breakend J hi"
    and "breakend_compare lo hi \<noteq> Greater"
  shows "location J lo \<le> location J hi"
proof (cases "journal_it lo < journal_it hi")
  case True
  have "location J lo \<le> total_size (take (journal_it lo) J) + segment_size (J ! journal_it lo)"
    using offset_le_segment [OF assms(1)] by (simp add: location_def)
  also have "\<dots> = total_size (take (Suc (journal_it lo)) J)"
    using assms(1) by (simp add: total_size_take_Suc valid_breakend_def)
  also have "\<dots> \<le> total_size (take (journal_it hi) J)"
    using True by (simp add: total_size_take_mono)
  also have "\<dots> \<le> location J hi"
    by (simp add: location_def)
  finally show ?thesis .
next
  case False
  with assms(3) have "journal_it lo = journal_it hi" "sequence_it lo \<le> sequence_it hi"
    by (auto simp: breakend_compare_def compare_three_way_def split: if_splits)
  then show ?thesis by (simp add: location_def)
qed

lemma compare_journal_it:
  assumes "breakend_compare lo hi \<noteq> Greater"
  shows "journal_it lo \<le> journal_it hi"
  using assms by (auto simp: breakend_compare_def compare_three_way_def split: if_splits)

lemma position_tail_ge:
  assumes "journal_inv J" "valid_breakend J hi" "r \<in> set (drop (Suc (journal_it hi)) J)"
  shows "location J hi \<le> position r" "position r \<le> total_size J"
proof -
  from assms(3) obtain k where k: "k < length (drop (Suc (journal_it hi)) J)"
    and r: "r = drop (Suc (journal_it hi)) J ! k"
    by (metis in_set_conv_nth)
  let ?j = "Suc (journal_it hi) + k"
  have j: "?j < length J" using k by simp
  have rj: "r = J ! ?j" using r j by simp
  have pos: "position r = total_size (take ?j J)"
    using assms(1) j rj by (simp add: position_eq_total)
  have "location J hi \<le> total_size (take (journal_it hi) J) + segment_size (J ! journal_it hi)"
    using offset_le_segment [OF assms(2)] by (simp add: location_def)
  also have "\<dots> = total_size (take (Suc (journal_it hi)) J)"
    using assms(2) by (simp add: total_size_take_Suc valid_breakend_def)
  also have "\<dots> \<le> total_size (take ?j J)"
    by (rule total_size_take_mono) simp
  finally show "location J hi \<le> position r" using pos by simp
  show "position r \<le> total_size J" using pos by (simp add: total_size_take_le)
qed

lemma update_positions_exact:
  assumes "length A = k"
    and "\<forall>r \<in> set R. 0 \<le> int (position r) + off \<and> int (position r) + off < 2 ^ 64"
  shows "update_positions_of_remaining_entries (A @ R) k off = A @ map (add_to_position off) R"
proof (cases "off = 0")
  case True
  then show ?thesis
    by (simp add: update_positions_of_remaining_entries_def add_to_position_0)
next
  case False
  then show ?thesis
    using assms by (simp add: update_positions_of_remaining_entries_def update_loop_exact)
qed

lemma record_inline_valid:
  assumes inv: "journal_inv J" and call: "valid_record_call J (lo, hi) alt"
  shows "record_inline J (lo, hi) alt =
           Some (take (journal_it lo) J @ inserted_entries J lo alt @
                   map (add_to_position (int (seq_size alt) - (int (location J hi) - int (location J lo))))
                     (suffix_record J hi # drop (Suc (journal_it hi)) J),
                 journal_it lo + length (inserted_entries J lo alt) -
                   (if seq_size alt \<noteq> 0 then 1 else 0))"
proof -
  let ?f = "journal_it lo" and ?t = "journal_it hi"
  let ?off = "int (seq_size alt) - (int (location J hi) - int (location J lo))"
  let ?es = "inserted_entries J lo alt"
  let ?R = "suffix_record J hi # drop (Suc ?t) J"
  have vlo: "valid_breakend J lo" and vhi: "valid_breakend J hi"
    and ord: "breakend_compare lo hi \<noteq> Greater"
    and bound: "total_size J + seq_size alt < 2 ^ 63"
    using call by (simp_all add: valid_record_call_def low_breakend_def high_breakend_def)
  have ft: "?f \<le> ?t" using ord by (rule compare_journal_it)
  have t: "?t < length J" using vhi by (simp add: valid_breakend_def)
  have f: "?f < length J" using ft t by simp
  have span: "breakend_span J (lo, hi) = Some (int (location J hi) - int (location J lo))"
    by (simp add: breakend_span_def breakend_minus_def low_breakend_def high_breakend_def
        to_integral_valid [OF inv vlo] to_integral_valid [OF inv vhi])
  have "seq_size alt < 2 ^ 63" using bound by simp
  then have ins: "ptrdiff_cast (int (seq_size alt)) = int (seq_size alt)"
    by (simp add: ptrdiff_cast_id int_less_63)
  have pre: "seq_size (sequence (prefix_record J lo)) \<noteq> 0 \<longleftrightarrow>
               sequence_it lo \<noteq> seq_begin (sequence (J ! ?f))"
    using vlo by (auto simp: prefix_record_def valid_breakend_def)
  have es: "(if seq_size (sequence (prefix_record J lo)) \<noteq> 0 then [prefix_record J lo] else []) @
            (if 0 < int (seq_size alt)
             then [\<lparr>position = position (suffix_record J lo), sequence = alt\<rparr>] else []) = ?es"
    using pre by (auto simp: inserted_entries_def suffix_record_def)
  have lohi: "location J lo \<le> location J hi" using vlo vhi ord by (rule location_mono)
  have hitot: "location J hi \<le> total_size J" using vhi by (rule location_le_total)
  have R: "\<forall>r \<in> set ?R. 0 \<le> int (position r) + ?off \<and> int (position r) + ?off < 2 ^ 64"
  proof
    fix r assume "r \<in> set ?R"
    then have "location J hi \<le> position r \<and> position r \<le> total_size J"
      using position_tail_ge [OF inv vhi, of r] hitot by (auto simp: suffix_record_def)
    moreover have "int (total_size J + seq_size alt) < 2 ^ 63" using bound by (rule int_less_63)
    moreover have "(2::int) ^ 63 < 2 ^ 64" by simp
    ultimately show "0 \<le> int (position r) + ?off \<and> int (position r) + ?off < 2 ^ 64"
      using lohi by linarith
  qed
  have len: "length (take ?f J @ ?es) = ?f + length ?es" using f by simp
  have upd: "update_positions_of_remaining_entries (take ?f J @ ?es @ ?R) (?f + length ?es) ?off =
             take ?f J @ ?es @ map (add_to_position ?off) ?R"
    using update_positions_exact [OF len R] by simp
  have a: "take ?f (J[?t := suffix_record J hi]) = take ?f J" using ft by simp
  have b: "drop ?t (J[?t := suffix_record J hi]) = ?R"
    using t by (simp add: upd_conv_take_nth_drop)
  have c: "length (take ?f J) = ?f" using f by simp
  have d: "take ?f (take ?f J @ ?R) = take ?f J" using c by simp
  have e: "drop ?f (take ?f J @ ?R) = ?R" using c by simp
  have g: "\<not> ?t < ?f" using ft by simp
  have h: "(0 < int (seq_size alt)) = (seq_size alt \<noteq> 0)" by simp
  show ?thesis
    unfolding record_inline_def span option.case split_at_valid [OF inv vlo] split_at_valid [OF inv vhi]
      prod.case Let_def ins es low_breakend_def high_breakend_def fst_conv snd_conv
      force_overwrite_through_def erase_def insert_entries_def a b d e upd
    using g h by simp
qed

lemma take_spell:
  "o' \<le> seq_size s \<Longrightarrow> take o' (spell mem s) = spell mem \<lparr>seq_begin = seq_begin s, seq_size = o'\<rparr>"
  by (simp add: spell_def seq_end_def take_map)

lemma drop_spell:
  "o' \<le> seq_size s \<Longrightarrow>
   drop o' (spell mem s) = spell mem \<lparr>seq_begin = seq_begin s + o', seq_size = seq_size s - o'\<rparr>"
  by (simp add: spell_def seq_end_def drop_map)

lemma derived_split:
  assumes "k < length J"
  shows "derived mem J = derived mem (take k J) @ spell mem (sequence (J ! k)) @ derived mem (drop (Suc k) J)"
proof -
  have "J = take k J @ J ! k # drop (Suc k) J" using assms by (rule id_take_nth_drop)
  then have "derived mem J = derived mem (take k J @ J ! k # drop (Suc k) J)" by simp
  then show ?thesis by simp
qed

lemma take_location:
  assumes "valid_breakend J b"
  shows "take (location J b) (derived mem J) =
         derived mem (take (journal_it b) J) @ spell mem (sequence (prefix_record J b))"
proof -
  let ?k = "journal_it b" and ?o = "sequence_it b - seq_begin (sequence (J ! journal_it b))"
  have k: "?k < length J" using assms by (simp add: valid_breakend_def)
  have o: "?o \<le> seq_size (sequence (J ! ?k))"
    using offset_le_segment [OF assms] by (simp add: segment_size_def)
  have len: "length (derived mem (take ?k J)) = total_size (take ?k J)" by (rule length_derived)
  have "take (location J b) (derived mem J) =
        derived mem (take ?k J) @ take ?o (spell mem (sequence (J ! ?k)) @ derived mem (drop (Suc ?k) J))"
    unfolding derived_split [OF k, of mem] location_def using len by simp
  also have "take ?o (spell mem (sequence (J ! ?k)) @ derived mem (drop (Suc ?k) J)) =
             take ?o (spell mem (sequence (J ! ?k)))"
    using o by simp
  also have "\<dots> = spell mem (sequence (prefix_record J b))"
    using o by (simp add: take_spell prefix_record_def)
  finally show ?thesis .
qed

lemma drop_location:
  assumes "valid_breakend J b"
  shows "drop (location J b) (derived mem J) =
         spell mem (sequence (suffix_record J b)) @ derived mem (drop (Suc (journal_it b)) J)"
proof -
  let ?k = "journal_it b" and ?o = "sequence_it b - seq_begin (sequence (J ! journal_it b))"
  have k: "?k < length J" and lo: "seq_begin (sequence (J ! ?k)) \<le> sequence_it b"
    using assms by (simp_all add: valid_breakend_def)
  have o: "?o \<le> seq_size (sequence (J ! ?k))"
    using offset_le_segment [OF assms] by (simp add: segment_size_def)
  have len: "length (derived mem (take ?k J)) = total_size (take ?k J)" by (rule length_derived)
  have "drop (location J b) (derived mem J) =
        drop ?o (spell mem (sequence (J ! ?k)) @ derived mem (drop (Suc ?k) J))"
    unfolding derived_split [OF k, of mem] location_def using len by simp
  also have "\<dots> = drop ?o (spell mem (sequence (J ! ?k))) @ derived mem (drop (Suc ?k) J)"
    using o by simp
  also have "drop ?o (spell mem (sequence (J ! ?k))) = spell mem (sequence (suffix_record J b))"
  proof -
    have "seq_begin (sequence (J ! ?k)) + ?o = sequence_it b" using lo by simp
    moreover have "seq_size (sequence (J ! ?k)) - ?o = seq_end (sequence (J ! ?k)) - sequence_it b"
      using lo o unfolding seq_end_def by arith
    ultimately show ?thesis using o by (simp add: drop_spell suffix_record_def)
  qed
  finally show ?thesis .
qed

lemma sequence_add_to_position [simp]: "sequence (add_to_position k r) = sequence r"
  by (simp add: add_to_position_def)

lemma segment_size_add_to_position [simp]: "segment_size (add_to_position k r) = segment_size r"
  by (simp add: segment_size_def)

lemma derived_add_to_position [simp]:
  "derived mem (map (add_to_position k) xs) = derived mem xs"
  by (induction xs) simp_all

lemma total_size_add_to_position [simp]:
  "total_size (map (add_to_position k) xs) = total_size xs"
  by (induction xs) simp_all

lemma derived_inserted_entries:
  assumes "valid_breakend J lo"
  shows "derived mem (inserted_entries J lo alt) =
         spell mem (sequence (prefix_record J lo)) @ spell mem alt"
  using assms
  by (auto simp: inserted_entries_def prefix_record_def spell_def seq_end_def valid_breakend_def)

lemma derived_record_inline:
  assumes inv: "journal_inv J" and call: "valid_record_call J (lo, hi) alt"
    and rec: "record_inline J (lo, hi) alt = Some (J', it)"
  shows "derived mem J' =
         take (location J lo) (derived mem J) @ spell mem alt @ drop (location J hi) (derived mem J)"
proof -
  have vlo: "valid_breakend J lo" and vhi: "valid_breakend J hi"
    using call by (simp_all add: valid_record_call_def low_breakend_def high_breakend_def)
  have "J' = take (journal_it lo) J @ inserted_entries J lo alt @
             map (add_to_position (int (seq_size alt) - (int (location J hi) - int (location J lo))))
               (suffix_record J hi # drop (Suc (journal_it hi)) J)"
    using rec unfolding record_inline_valid [OF inv call] by simp
  then show ?thesis
    by (simp add: take_location [OF vlo] drop_location [OF vhi] derived_inserted_entries [OF vlo])
qed

lemma position_add_to_position [simp]:
  "position (add_to_position k r) = nat (int (position r) + k)"
  by (simp add: add_to_position_def)

lemma chained_add_to_position:
  assumes "chained p xs" "0 \<le> int p + k"
  shows "chained (nat (int p + k)) (map (add_to_position k) xs)"
  using assms
proof (induction xs arbitrary: p)
  case Nil
  then show ?case by simp
next
  case (Cons r rs)
  from Cons.prems have r: "position r = p" and rs: "chained (p + segment_size r) rs"
    by simp_all
  have "0 \<le> int (p + segment_size r) + k" using Cons.prems(2) by simp
  with rs have "chained (nat (int (p + segment_size r) + k)) (map (add_to_position k) rs)"
    by (rule Cons.IH)
  moreover have "nat (int (p + segment_size r) + k) = nat (int p + k) + segment_size r"
    using Cons.prems(2) by simp
  ultimately show ?case using r by simp
qed

lemma total_inserted_entries:
  assumes "valid_breakend J lo"
  shows "total_size (inserted_entries J lo alt) =
         (sequence_it lo - seq_begin (sequence (J ! journal_it lo))) + seq_size alt"
  using assms
  by (auto simp: inserted_entries_def prefix_record_def segment_size_def valid_breakend_def)

lemma chained_inserted_entries:
  assumes "journal_inv J" "valid_breakend J lo"
  shows "chained (total_size (take (journal_it lo) J)) (inserted_entries J lo alt)"
proof -
  have "position (J ! journal_it lo) = total_size (take (journal_it lo) J)"
    using assms by (simp add: position_eq_total valid_breakend_def)
  then show ?thesis
    by (simp add: inserted_entries_def prefix_record_def segment_size_def location_def)
qed

lemma segment_size_suffix:
  assumes "valid_breakend J b"
  shows "location J b + segment_size (suffix_record J b) = total_size (take (Suc (journal_it b)) J)"
proof -
  have k: "journal_it b < length J"
    and lo: "seq_begin (sequence (J ! journal_it b)) \<le> sequence_it b"
    and hi: "sequence_it b \<le> seq_end (sequence (J ! journal_it b))"
    using assms by (simp_all add: valid_breakend_def)
  have "sequence_it b - seq_begin (sequence (J ! journal_it b)) +
        (seq_end (sequence (J ! journal_it b)) - sequence_it b) = segment_size (J ! journal_it b)"
    using lo hi unfolding seq_end_def segment_size_def by arith
  then show ?thesis
    using k by (simp add: location_def suffix_record_def total_size_take_Suc segment_size_def)
qed

lemma chained_tail:
  assumes "journal_inv J"
  shows "chained (total_size (take k J)) (drop k J)"
proof -
  have "chained 0 (take k J @ drop k J)" using assms by (simp add: journal_inv_def)
  then show ?thesis unfolding chained_append by simp
qed

lemma chained_head:
  assumes "journal_inv J"
  shows "chained 0 (take k J)"
proof -
  have "chained 0 (take k J @ drop k J)" using assms by (simp add: journal_inv_def)
  then show ?thesis unfolding chained_append by simp
qed

lemma journal_inv_record_inline:
  assumes inv: "journal_inv J" and call: "valid_record_call J (lo, hi) alt"
    and rec: "record_inline J (lo, hi) alt = Some (J', it)"
  shows "journal_inv J'"
    and "total_size J' + location J hi = total_size J + location J lo + seq_size alt"
proof -
  let ?f = "journal_it lo" and ?t = "journal_it hi"
  let ?off = "int (seq_size alt) - (int (location J hi) - int (location J lo))"
  let ?es = "inserted_entries J lo alt"
  let ?B = "drop (Suc ?t) J"
  let ?R = "suffix_record J hi # ?B"
  have vlo: "valid_breakend J lo" and vhi: "valid_breakend J hi"
    and ord: "breakend_compare lo hi \<noteq> Greater"
    and bound: "total_size J + seq_size alt < 2 ^ 63"
    using call by (simp_all add: valid_record_call_def low_breakend_def high_breakend_def)
  have J': "J' = take ?f J @ ?es @ map (add_to_position ?off) ?R"
    using rec unfolding record_inline_valid [OF inv call] by simp
  have t: "?t < length J" using vhi by (simp add: valid_breakend_def)
  have lohi: "location J lo \<le> location J hi" using vlo vhi ord by (rule location_mono)
  have hitot: "location J hi \<le> total_size J" using vhi by (rule location_le_total)
  have loc_lo: "location J lo = total_size (take ?f J) +
                  (sequence_it lo - seq_begin (sequence (J ! ?f)))"
    by (simp add: location_def)
  have split: "total_size J = total_size (take (Suc ?t) J) + total_size ?B"
    by (metis append_take_drop_id total_size_append)
  have suf: "location J hi + segment_size (suffix_record J hi) = total_size (take (Suc ?t) J)"
    using vhi by (rule segment_size_suffix)
  show tot: "total_size J' + location J hi = total_size J + location J lo + seq_size alt"
    using split suf by (simp add: J' total_inserted_entries [OF vlo] loc_lo)
  have p0: "0 \<le> int (location J hi) + ?off" by simp
  have p1: "nat (int (location J hi) + ?off) = location J lo + seq_size alt"
    by simp
  have "chained (location J hi) ?R"
    using chained_tail [OF inv, of "Suc ?t"] suf by (simp add: suffix_record_def)
  then have cR: "chained (location J lo + seq_size alt) (map (add_to_position ?off) ?R)"
    using chained_add_to_position [OF _ p0] p1 by metis
  have "chained 0 J'"
    unfolding J' chained_append
    using chained_head [OF inv, of ?f] chained_inserted_entries [OF inv vlo, of alt] cR
    by (simp add: total_inserted_entries [OF vlo] loc_lo add.assoc)
  moreover have "J' \<noteq> []" by (simp add: J')
  moreover have "segment_size (last J') = 0"
  proof (cases "?B = []")
    case True
    then have "Suc ?t = length J" using t by simp
    then have "J ! ?t = last J" using t by (metis diff_Suc_1 last_conv_nth less_nat_zero_code list.size(3))
    then have "segment_size (J ! ?t) = 0" using inv by (simp add: journal_inv_def)
    then have "segment_size (suffix_record J hi) = 0"
      using vhi by (simp add: suffix_record_def segment_size_def seq_end_def valid_breakend_def)
    with True show ?thesis by (simp add: J')
  next
    case False
    then have "last J' = add_to_position ?off (last ?B)"
      by (simp add: J' last_map)
    moreover have "last ?B = last J" using False by simp
    ultimately show ?thesis using inv by (simp add: journal_inv_def)
  qed
  moreover have "total_size J' < 2 ^ 63"
    using tot lohi bound by linarith
  ultimately show "journal_inv J'" by (simp add: journal_inv_def)
qed

lemma record_all_valid:
  assumes "journal_inv J0" "valid_calls J0 calls"
  shows "\<exists>J. record_all J0 calls = Some J \<and> journal_inv J \<and>
             derived mem J = apply_edits mem J0 calls (derived mem J0)"
  using assms
proof (induction calls arbitrary: J0)
  case Nil
  then show ?case by simp
next
  case (Cons c calls)
  obtain lo hi alt where c: "c = ((lo, hi), alt)" by (metis surj_pair)
  from Cons.prems(2) have call: "valid_record_call J0 (lo, hi) alt"
    by (simp add: c)
  from Cons.prems(2) obtain J1 it where rec: "record_inline J0 (lo, hi) alt = Some (J1, it)"
    and rest: "valid_calls J1 calls"
    by (auto simp: c record_journal_def split: option.splits)
  have inv1: "journal_inv J1"
    using Cons.prems(1) call rec by (rule journal_inv_record_inline(1))
  have d1: "derived mem J1 =
            apply_edit (derived mem J0) (location J0 lo) (location J0 hi) (spell mem alt)"
    unfolding apply_edit_def using Cons.prems(1) call rec by (rule derived_record_inline)
  from Cons.IH [OF inv1 rest] obtain J where "record_all J1 calls = Some J" "journal_inv J"
    "derived mem J = apply_edits mem J1 calls (derived mem J1)"
    by blast
  then show ?case
    by (simp add: c record_journal_def rec d1 low_breakend_def high_breakend_def)
qed

lemma journal_inv_initialize:
  assumes "seq_size source < 2 ^ 63"
  shows "journal_inv (initialize_journal source)"
  using assms
  by (simp add: journal_inv_def initialize_journal_def empty_sequence_def segment_size_def
      breakpoint_slice_def to_breakpoint_def seq_end_def)

lemma derived_initialize: "derived mem (initialize_journal source) = spell mem source"
  by (simp add: initialize_journal_def empty_sequence_def breakpoint_slice_def
      to_breakpoint_def seq_end_def spell_def)

lemma chained_adjacent:
  assumes "chained p J" "Suc i < length J"
  shows "position (J ! Suc i) = position (J ! i) + seq_size (sequence (J ! i))"
proof -
  have "position (J ! Suc i) = p + total_size (take (Suc i) J)"
    using assms by (rule chained_nth)
  moreover have "position (J ! i) = p + total_size (take i J)"
    using assms by (simp add: chained_nth)
  ultimately show ?thesis
    using assms(2) by (simp add: total_size_take_Suc segment_size_def)
qed

lemma check_adjacent_chained:
  assumes "chained p J" "p + total_size J < 2 ^ 64"
  shows "check_adjacent J"
  using assms
proof (induction J arbitrary: p rule: check_adjacent.induct)
  case (1 r n rs)
  from "1.prems"(1) have r: "position r = p" and n: "position n = p + segment_size r"
    and rest: "chained (p + segment_size r) (n # rs)"
    by simp_all
  have "p + segment_size r < 2 ^ 64" using "1.prems"(2) by simp
  then have "size_cast (int (position r) + int (seq_size (sequence r))) = position n"
    using r n size_cast_nat [of "p + segment_size r"] by (simp add: segment_size_def)
  moreover have "check_adjacent (n # rs)"
    using "1.IH" rest "1.prems"(2) calculation by (simp add: add.assoc)
  ultimately show ?case by simp
qed simp_all

lemma journal_inv_check:
  assumes "journal_inv J"
  shows "check_journal_invariants J"
proof -
  from assms have ne: "J \<noteq> []" and ch: "chained 0 J" and b: "total_size J < 2 ^ 63"
    by (simp_all add: journal_inv_def)
  have "position (hd J) = 0" using ne ch by (cases J) simp_all
  moreover have "check_adjacent J"
    using ch nat_63_64 [OF b] by (simp add: check_adjacent_chained)
  ultimately show ?thesis using ne by (simp add: check_journal_invariants_def)
qed

lemma position_last:
  assumes "journal_inv J"
  shows "position (last J) = total_size J"
proof -
  from assms have ne: "J \<noteq> []" and sent: "segment_size (last J) = 0"
    by (simp_all add: journal_inv_def)
  have k: "length J - 1 < length J" using ne by simp
  have "position (J ! (length J - 1)) = total_size (take (length J - 1) J)"
    using assms k by (rule position_eq_total)
  moreover have "total_size (take (length J - 1) J) + segment_size (J ! (length J - 1)) \<le> total_size J"
    using k by (rule total_size_take_nth_le)
  moreover have "J = take (length J - 1) J @ [last J]"
    using ne by (metis append_butlast_last_id butlast_conv_take)
  then have "total_size J = total_size (take (length J - 1) J) + segment_size (last J)"
    by (metis add.right_neutral total_size_Cons total_size_Nil total_size_append)
  moreover have "J ! (length J - 1) = last J" using ne by (simp add: last_conv_nth)
  ultimately show ?thesis using sent by simp
qed

lemma range_butlast: "map ((!) J) [0 ..< length J - 1] = butlast J"
  by (rule nth_equalityI) (simp_all add: nth_butlast)

lemma linear_offset_location:
  assumes "journal_inv J" "valid_breakend J b"
  shows "linear_offset J b = int (location J b)"
proof -
  have "position (J ! journal_it b) = total_size (take (journal_it b) J)"
    using assms by (simp add: position_eq_total valid_breakend_def)
  moreover have "seq_begin (sequence (J ! journal_it b)) \<le> sequence_it b"
    using assms(2) by (simp add: valid_breakend_def)
  ultimately show ?thesis by (simp add: linear_offset_def location_def)
qed

lemma breakend_compare_swap:
  "breakend_compare a b = Greater \<longleftrightarrow> breakend_compare b a = Less"
  by (auto simp: breakend_compare_def compare_three_way_def split: if_splits)

lemma breakend_compare_Equal: "breakend_compare a b = Equal \<longleftrightarrow> a = b"
  by (cases a, cases b) (auto simp: breakend_compare_def compare_three_way_def split: if_splits)

lemma same_record_compare:
  assumes "valid_breakend J a" "valid_breakend J b" "journal_it a = journal_it b"
  shows "breakend_compare a b = Less \<longleftrightarrow> location J a < location J b"
    and "breakend_compare a b = Equal \<longleftrightarrow> location J a = location J b"
proof -
  have a: "seq_begin (sequence (J ! journal_it b)) \<le> sequence_it a"
    and b: "seq_begin (sequence (J ! journal_it b)) \<le> sequence_it b"
    using assms by (simp_all add: valid_breakend_def)
  show "breakend_compare a b = Less \<longleftrightarrow> location J a < location J b"
    using a b assms(3)
    by (auto simp: breakend_compare_def compare_three_way_def location_def split: if_splits)
  show "breakend_compare a b = Equal \<longleftrightarrow> location J a = location J b"
    using a b assms(3)
    by (auto simp: breakend_compare_def compare_three_way_def location_def split: if_splits)
qed

lemma not_adjacent_empty:
  assumes "\<forall>r \<in> set (butlast J). segment_size r \<noteq> 0"
  shows "\<not> adjacent_empty J"
  using assms by (induction J rule: adjacent_empty.induct) simp_all

lemma inner_nonempty_record_inline:
  assumes inv: "journal_inv J" and call: "valid_record_call J (lo, hi) alt"
    and inner: "\<not> ends_segment J hi"
    and ne: "\<forall>r \<in> set (butlast J). segment_size r \<noteq> 0"
    and rec: "record_inline J (lo, hi) alt = Some (J', it)"
  shows "\<forall>r \<in> set (butlast J'). segment_size r \<noteq> 0"
proof -
  let ?f = "journal_it lo" and ?t = "journal_it hi"
  let ?off = "int (seq_size alt) - (int (location J hi) - int (location J lo))"
  let ?es = "inserted_entries J lo alt"
  let ?B = "drop (Suc ?t) J"
  have vlo: "valid_breakend J lo" and vhi: "valid_breakend J hi"
    and ord: "breakend_compare lo hi \<noteq> Greater"
    using call by (simp_all add: valid_record_call_def low_breakend_def high_breakend_def)
  have J': "J' = take ?f J @ ?es @ map (add_to_position ?off) (suffix_record J hi # ?B)"
    using rec unfolding record_inline_valid [OF inv call] by simp
  have ft: "?f \<le> ?t" using ord by (rule compare_journal_it)
  have t: "?t < length J" using vhi by (simp add: valid_breakend_def)
  have f: "?f < length J" using ft t by simp
  have bl: "butlast J' = take ?f J @ ?es @ map (add_to_position ?off) (butlast (suffix_record J hi # ?B))"
    unfolding J' by (simp add: butlast_append map_butlast [symmetric])
  have A: "\<forall>r \<in> set (take ?f J). segment_size r \<noteq> 0"
  proof
    fix r assume "r \<in> set (take ?f J)"
    moreover have "take ?f J = take ?f (butlast J)" using f by (simp add: take_butlast)
    ultimately have "r \<in> set (butlast J)" by (metis in_set_takeD)
    with ne show "segment_size r \<noteq> 0" by simp
  qed
  have E: "\<forall>r \<in> set ?es. segment_size r \<noteq> 0"
    using vlo
    by (auto simp: inserted_entries_def prefix_record_def segment_size_def valid_breakend_def)
  have R: "\<forall>r \<in> set (butlast (suffix_record J hi # ?B)). segment_size r \<noteq> 0"
  proof (cases "?B = []")
    case True
    then show ?thesis by simp
  next
    case False
    then have st: "Suc ?t < length J" by simp
    with inner have "sequence_it hi \<noteq> seq_end (sequence (J ! ?t))"
      by (simp add: ends_segment_def)
    moreover have "sequence_it hi \<le> seq_end (sequence (J ! ?t))"
      using vhi by (simp add: valid_breakend_def)
    ultimately have hs: "segment_size (suffix_record J hi) \<noteq> 0"
      by (simp add: suffix_record_def segment_size_def)
    have "\<forall>r \<in> set (butlast ?B). segment_size r \<noteq> 0"
    proof
      fix r assume "r \<in> set (butlast ?B)"
      then have "r \<in> set (drop (Suc ?t) (butlast J))" by (simp only: butlast_drop)
      then have "r \<in> set (butlast J)" by (rule in_set_dropD)
      with ne show "segment_size r \<noteq> 0" by simp
    qed
    with hs False show ?thesis by simp
  qed
  show ?thesis unfolding bl using A E R by auto
qed

lemma inner_calls_result:
  assumes "journal_inv J0" "\<forall>r \<in> set (butlast J0). segment_size r \<noteq> 0" "inner_calls J0 calls"
  shows "\<exists>J. record_all J0 calls = Some J \<and> journal_inv J \<and>
             (\<forall>r \<in> set (butlast J). segment_size r \<noteq> 0)"
  using assms
proof (induction calls arbitrary: J0)
  case Nil
  then show ?case by simp
next
  case (Cons c calls)
  obtain lo hi alt where c: "c = ((lo, hi), alt)" by (metis surj_pair)
  from Cons.prems(3) have call: "valid_record_call J0 (lo, hi) alt"
    and inner: "\<not> ends_segment J0 hi"
    by (simp_all add: c high_breakend_def)
  from Cons.prems(3) obtain J1 it where rec: "record_inline J0 (lo, hi) alt = Some (J1, it)"
    and rest: "inner_calls J1 calls"
    by (auto simp: c record_journal_def split: option.splits)
  have inv1: "journal_inv J1"
    using Cons.prems(1) call rec by (rule journal_inv_record_inline(1))
  have ne1: "\<forall>r \<in> set (butlast J1). segment_size r \<noteq> 0"
    using Cons.prems(1) call inner Cons.prems(2) rec by (rule inner_nonempty_record_inline)
  from Cons.IH [OF inv1 ne1 rest] show ?case
    by (simp add: c record_journal_def rec)
qed

lemma edit_then_inverse:
  assumes "l \<le> h" "h \<le> length D" "length A = i"
  shows "apply_edit (apply_edit D l h A) l (l + i) (take (h - l) (drop l D)) = D"
proof -
  have len: "length (take l D) = l" using assms by simp
  have a: "take l (take l D @ A @ drop h D) = take l D" using len by simp
  have b: "drop (l + i) (take l D @ A @ drop h D) = drop h D"
    using len assms(3) by simp
  have "take l D @ take (h - l) (drop l D) = take (l + (h - l)) D"
    by (simp only: take_add)
  then have c: "take l D @ take (h - l) (drop l D) = take h D" using assms(1) by simp
  have "take l D @ take (h - l) (drop l D) @ drop h D = D"
    using c by (metis append.assoc append_take_drop_id)
  then show ?thesis unfolding apply_edit_def a b .
qed

lemma location_strict_mono:
  assumes "valid_breakend J a" "valid_breakend J b"
    and "journal_it a < journal_it b" "\<not> ends_segment J a"
  shows "location J a < location J b"
proof -
  have b: "journal_it b < length J" using assms(2) by (simp add: valid_breakend_def)
  then have "Suc (journal_it a) < length J" using assms(3) by simp
  with assms(4) have "sequence_it a \<noteq> seq_end (sequence (J ! journal_it a))"
    by (simp add: ends_segment_def)
  moreover have "seq_begin (sequence (J ! journal_it a)) \<le> sequence_it a"
    and "sequence_it a \<le> seq_end (sequence (J ! journal_it a))"
    using assms(1) by (simp_all add: valid_breakend_def)
  ultimately have "sequence_it a - seq_begin (sequence (J ! journal_it a)) < segment_size (J ! journal_it a)"
    unfolding seq_end_def segment_size_def by arith
  then have "location J a < total_size (take (journal_it a) J) + segment_size (J ! journal_it a)"
    by (simp add: location_def)
  also have "\<dots> = total_size (take (Suc (journal_it a)) J)"
    using assms(1) by (simp add: total_size_take_Suc valid_breakend_def)
  also have "\<dots> \<le> total_size (take (journal_it b) J)"
    using assms(3) by (simp add: total_size_take_mono)
  also have "\<dots> \<le> location J b"
    by (simp add: location_def)
  finally show ?thesis .
qed

section \<open>The properties\<close>

subsection \<open>C1: positions and derived sequence after any sequence of calls\<close>

text \<open>
  C1. For a journal created from a source and any sequence of valid \<^verbatim>\<open>record\<close> calls
  applied to it, every call returns, and in the resulting journal the first record has
  position \<open>0\<close>, each further record has the position of its predecessor plus the length of
  the predecessor's segment (so \<^verbatim>\<open>check_journal_invariants\<close> holds), and the concatenation of
  the segments is the source sequence with the edits applied in order.
\<close>

theorem journal_invariants_after_records:
  assumes "seq_size source < 2 ^ 63"
    and "valid_calls (initialize_journal source) calls"
  shows "\<exists>J. record_all (initialize_journal source) calls = Some J \<and>
             J \<noteq> [] \<and> position (hd J) = 0 \<and>
             (\<forall>i. Suc i < length J \<longrightarrow>
                  position (J ! Suc i) = position (J ! i) + seq_size (sequence (J ! i))) \<and>
             check_journal_invariants J \<and>
             derived mem J = apply_edits mem (initialize_journal source) calls (spell mem source)"
proof -
  have "journal_inv (initialize_journal source)"
    using assms(1) by (rule journal_inv_initialize)
  from record_all_valid [OF this assms(2), of mem]
  obtain J where J: "record_all (initialize_journal source) calls = Some J" "journal_inv J"
    "derived mem J = apply_edits mem (initialize_journal source) calls (spell mem source)"
    by (auto simp: derived_initialize)
  from J(2) have ne: "J \<noteq> []" and ch: "chained 0 J" by (simp_all add: journal_inv_def)
  have "position (hd J) = 0" using ne ch by (cases J) simp_all
  moreover have "\<forall>i. Suc i < length J \<longrightarrow>
                  position (J ! Suc i) = position (J ! i) + seq_size (sequence (J ! i))"
    using ch by (simp add: chained_adjacent)
  ultimately show ?thesis using J ne journal_inv_check [OF J(2)] by blast
qed

theorem journal_invariants_after_records_witness:
  "seq_size \<lparr>seq_begin = 100, seq_size = 4\<rparr> < 2 ^ 63 \<and>
   valid_calls (initialize_journal \<lparr>seq_begin = 100, seq_size = 4\<rparr>)
     [((\<lparr>journal_it = 0, sequence_it = 102\<rparr>, \<lparr>journal_it = 0, sequence_it = 102\<rparr>),
       \<lparr>seq_begin = 200, seq_size = 4\<rparr>),
      ((\<lparr>journal_it = 0, sequence_it = 101\<rparr>, \<lparr>journal_it = 1, sequence_it = 201\<rparr>),
       \<lparr>seq_begin = 0, seq_size = 0\<rparr>)] \<and>
   (\<exists>J. record_all (initialize_journal \<lparr>seq_begin = 100, seq_size = 4\<rparr>)
     [((\<lparr>journal_it = 0, sequence_it = 102\<rparr>, \<lparr>journal_it = 0, sequence_it = 102\<rparr>),
       \<lparr>seq_begin = 200, seq_size = 4\<rparr>),
      ((\<lparr>journal_it = 0, sequence_it = 101\<rparr>, \<lparr>journal_it = 1, sequence_it = 201\<rparr>),
       \<lparr>seq_begin = 0, seq_size = 0\<rparr>)] = Some J \<and>
     position (hd J) = 0 \<and> check_journal_invariants J \<and>
     derived (\<lambda>a. if a < 200 then ''ACGT'' ! (a - 100) else ''TGCA'' ! (a - 200)) J = ''AGCAGT'')"
proof -
  let ?src = "\<lparr>seq_begin = 100, seq_size = 4\<rparr>"
  let ?calls = "[((\<lparr>journal_it = 0, sequence_it = 102\<rparr>, \<lparr>journal_it = 0, sequence_it = 102\<rparr>),
       \<lparr>seq_begin = 200, seq_size = 4\<rparr>),
      ((\<lparr>journal_it = 0, sequence_it = 101\<rparr>, \<lparr>journal_it = 1, sequence_it = 201\<rparr>),
       \<lparr>seq_begin = 0, seq_size = 0\<rparr>)]"
  let ?mem = "\<lambda>a::nat. if a < 200 then ''ACGT'' ! (a - 100) else ''TGCA'' ! (a - 200)"
  have h1: "seq_size ?src < 2 ^ 63" by simp
  have h2: "valid_calls (initialize_journal ?src) ?calls"
    by (simp add: journal_defs)
  have e: "apply_edits ?mem (initialize_journal ?src) ?calls (spell ?mem ?src) = ''AGCAGT''"
    by (simp add: journal_defs apply_edit_def upt_rec)
  from journal_invariants_after_records [OF h1 h2, of ?mem] e h1 h2
  show ?thesis by auto
qed

subsection \<open>C2: calls with invalid arguments\<close>

text \<open>
  C2, as stated, fails: \<^verbatim>\<open>record_inline\<close> validates nothing and has no error path. A call
  with in-range breakends of zero span and an empty \<open>alt\<close> returns normally, and here it
  changes the record list: the entry is split at the breakend.
\<close>

theorem record_empty_edit_splits_entry:
  "record_journal (initialize_journal \<lparr>seq_begin = 100, seq_size = 4\<rparr>)
     (\<lparr>journal_it = 0, sequence_it = 102\<rparr>, \<lparr>journal_it = 0, sequence_it = 102\<rparr>)
     \<lparr>seq_begin = 0, seq_size = 0\<rparr> =
   Some ([\<lparr>position = 0, sequence = \<lparr>seq_begin = 100, seq_size = 2\<rparr>\<rparr>,
          \<lparr>position = 2, sequence = \<lparr>seq_begin = 102, seq_size = 2\<rparr>\<rparr>,
          \<lparr>position = 4, sequence = \<lparr>seq_begin = 0, seq_size = 0\<rparr>\<rparr>], 1) \<and>
   initialize_journal \<lparr>seq_begin = 100, seq_size = 4\<rparr> =
     [\<lparr>position = 0, sequence = \<lparr>seq_begin = 100, seq_size = 4\<rparr>\<rparr>,
      \<lparr>position = 4, sequence = \<lparr>seq_begin = 0, seq_size = 0\<rparr>\<rparr>] \<and>
   [\<lparr>position = 0, sequence = \<lparr>seq_begin = 100, seq_size = 2\<rparr>\<rparr>,
    \<lparr>position = 2, sequence = \<lparr>seq_begin = 102, seq_size = 2\<rparr>\<rparr>,
    \<lparr>position = 4, sequence = \<lparr>seq_begin = 0, seq_size = 0\<rparr>\<rparr>] \<noteq>
   initialize_journal \<lparr>seq_begin = 100, seq_size = 4\<rparr> \<and>
   breakend_span (initialize_journal \<lparr>seq_begin = 100, seq_size = 4\<rparr>)
     (\<lparr>journal_it = 0, sequence_it = 102\<rparr>, \<lparr>journal_it = 0, sequence_it = 102\<rparr>) = Some 0 \<and>
   seq_size \<lparr>seq_begin = 0, seq_size = 0\<rparr> = 0"
  by (simp add: journal_defs)

text \<open>
  C2, amended. \<^verbatim>\<open>record\<close> reports no invalid-argument error. A valid call of zero span with an
  empty \<open>alt\<close> on a journal that satisfies the invariant returns normally; the derived
  sequence, the position invariant and the position of the sentinel are unchanged, while
  the record list may be segmented anew. For breakends that are out of range or belong to
  another journal the behaviour of the C++ is undefined and nothing is stated.
\<close>

theorem record_empty_edit_returns:
  assumes "journal_inv J" and "valid_record_call J bp alt"
    and "location J (low_breakend bp) = location J (high_breakend bp)"
    and "seq_size alt = 0"
  shows "\<exists>J' it. record_journal J bp alt = Some (J', it) \<and>
                derived mem J' = derived mem J \<and>
                check_journal_invariants J' \<and>
                position (last J') = position (last J)"
proof -
  obtain lo hi where bp: "bp = (lo, hi)" by (cases bp)
  have call: "valid_record_call J (lo, hi) alt" using assms(2) by (simp add: bp)
  have loc: "location J lo = location J hi"
    using assms(3) by (simp add: bp low_breakend_def high_breakend_def)
  obtain J' it where rec: "record_inline J (lo, hi) alt = Some (J', it)"
    using record_inline_valid [OF assms(1) call] by blast
  have inv': "journal_inv J'"
    using assms(1) call rec by (rule journal_inv_record_inline(1))
  have "total_size J' + location J hi = total_size J + location J lo + seq_size alt"
    using assms(1) call rec by (rule journal_inv_record_inline(2))
  then have tot: "total_size J' = total_size J" using loc assms(4) by simp
  have "derived mem J' =
        take (location J lo) (derived mem J) @ spell mem alt @ drop (location J hi) (derived mem J)"
    using assms(1) call rec by (rule derived_record_inline)
  then have "derived mem J' = derived mem J"
    using loc assms(4) by (simp add: spell_def seq_end_def)
  moreover have "check_journal_invariants J'" using inv' by (rule journal_inv_check)
  moreover have "position (last J') = position (last J)"
    using inv' assms(1) tot by (simp add: position_last)
  ultimately show ?thesis using rec by (simp add: bp record_journal_def)
qed

theorem record_empty_edit_returns_witness:
  "journal_inv (initialize_journal \<lparr>seq_begin = 100, seq_size = 4\<rparr>) \<and>
   valid_record_call (initialize_journal \<lparr>seq_begin = 100, seq_size = 4\<rparr>)
     (\<lparr>journal_it = 0, sequence_it = 102\<rparr>, \<lparr>journal_it = 0, sequence_it = 102\<rparr>)
     \<lparr>seq_begin = 0, seq_size = 0\<rparr> \<and>
   (\<exists>J' it. record_journal (initialize_journal \<lparr>seq_begin = 100, seq_size = 4\<rparr>)
       (\<lparr>journal_it = 0, sequence_it = 102\<rparr>, \<lparr>journal_it = 0, sequence_it = 102\<rparr>)
       \<lparr>seq_begin = 0, seq_size = 0\<rparr> = Some (J', it) \<and>
     derived (\<lambda>a. ''ACGT'' ! (a - 100)) J' =
       derived (\<lambda>a. ''ACGT'' ! (a - 100)) (initialize_journal \<lparr>seq_begin = 100, seq_size = 4\<rparr>) \<and>
     check_journal_invariants J')"
proof -
  let ?J = "initialize_journal \<lparr>seq_begin = 100, seq_size = 4\<rparr>"
  let ?bp = "(\<lparr>journal_it = 0, sequence_it = 102\<rparr>, \<lparr>journal_it = 0, sequence_it = 102\<rparr>)"
  let ?alt = "\<lparr>seq_begin = 0, seq_size = 0\<rparr>"
  have h1: "journal_inv ?J" by (simp add: journal_inv_initialize)
  have h2: "valid_record_call ?J ?bp ?alt" by (simp add: journal_defs)
  have h3: "location ?J (low_breakend ?bp) = location ?J (high_breakend ?bp)"
    by (simp add: low_breakend_def high_breakend_def)
  have h4: "seq_size ?alt = 0" by simp
  from record_empty_edit_returns [OF h1 h2 h3 h4, of "\<lambda>a. ''ACGT'' ! (a - 100)"] h1 h2
  show ?thesis by blast
qed

subsection \<open>C4: the journal of a new source\<close>

text \<open>
  C4, as stated, fails on the empty source: \<^verbatim>\<open>initialize_journal\<close> adds the segment only
  when the source is not empty, so the journal of an empty source holds the sentinel alone
  and \<^verbatim>\<open>size()\<close> is \<open>0\<close>, not \<open>1\<close>.
\<close>

theorem empty_source_has_no_entry:
  "initialize_journal \<lparr>seq_begin = 100, seq_size = 0\<rparr> =
     [\<lparr>position = 0, sequence = \<lparr>seq_begin = 0, seq_size = 0\<rparr>\<rparr>] \<and>
   size_journal (initialize_journal \<lparr>seq_begin = 100, seq_size = 0\<rparr>) = 0 \<and>
   size_journal (initialize_journal \<lparr>seq_begin = 100, seq_size = 0\<rparr>) \<noteq> 1"
  by (simp add: initialize_journal_def size_journal_def empty_sequence_def)

text \<open>
  C4, amended. For a non-empty source the vector holds one segment covering the whole
  source followed by the sentinel, and \<^verbatim>\<open>size()\<close> is \<open>1\<close>; for the empty source the vector
  holds the sentinel alone and \<^verbatim>\<open>size()\<close> is \<open>0\<close>.
\<close>

theorem initialize_journal_entries:
  "(seq_size source \<noteq> 0 \<longrightarrow>
      initialize_journal source =
        [\<lparr>position = 0, sequence = source\<rparr>,
         \<lparr>position = seq_size source, sequence = empty_sequence\<rparr>] \<and>
      size_journal (initialize_journal source) = 1) \<and>
   (seq_size source = 0 \<longrightarrow>
      initialize_journal source = [\<lparr>position = 0, sequence = empty_sequence\<rparr>] \<and>
      size_journal (initialize_journal source) = 0)"
  by (simp add: initialize_journal_def size_journal_def breakpoint_slice_def to_breakpoint_def
      seq_end_def)

theorem initialize_journal_entries_witness:
  "seq_size \<lparr>seq_begin = 100, seq_size = 4\<rparr> \<noteq> 0 \<and>
   initialize_journal \<lparr>seq_begin = 100, seq_size = 4\<rparr> =
     [\<lparr>position = 0, sequence = \<lparr>seq_begin = 100, seq_size = 4\<rparr>\<rparr>,
      \<lparr>position = 4, sequence = empty_sequence\<rparr>] \<and>
   size_journal (initialize_journal \<lparr>seq_begin = 100, seq_size = 4\<rparr>) = 1 \<and>
   seq_size \<lparr>seq_begin = 100, seq_size = 0\<rparr> = 0 \<and>
   initialize_journal \<lparr>seq_begin = 100, seq_size = 0\<rparr> =
     [\<lparr>position = 0, sequence = empty_sequence\<rparr>] \<and>
   size_journal (initialize_journal \<lparr>seq_begin = 100, seq_size = 0\<rparr>) = 0"
proof -
  let ?a = "\<lparr>seq_begin = 100, seq_size = 4\<rparr>" and ?b = "\<lparr>seq_begin = 100, seq_size = 0\<rparr>"
  have n: "seq_size ?a \<noteq> 0" and z: "seq_size ?b = 0" by simp_all
  have sa: "seq_size ?a = 4" by simp
  from initialize_journal_entries [of ?a] n
  have 1: "initialize_journal ?a =
             [\<lparr>position = 0, sequence = ?a\<rparr>, \<lparr>position = seq_size ?a, sequence = empty_sequence\<rparr>] \<and>
           size_journal (initialize_journal ?a) = 1"
    by blast
  from initialize_journal_entries [of ?b] z
  have 2: "initialize_journal ?b = [\<lparr>position = 0, sequence = empty_sequence\<rparr>] \<and>
           size_journal (initialize_journal ?b) = 0"
    by blast
  show ?thesis using n z 1 2 unfolding sa by blast
qed

subsection \<open>C5: comparison and distance of breakends\<close>

text \<open>
  C5, as stated, fails: the defaulted comparison is lexicographic on the journal iterator
  and the sequence iterator. The end of one segment and the begin of the next have the same
  linear offset, yet the first compares less than the second and they are not equal.
\<close>

theorem breakend_equal_offsets_compare_less:
  "record_journal (initialize_journal \<lparr>seq_begin = 100, seq_size = 4\<rparr>)
     (\<lparr>journal_it = 0, sequence_it = 102\<rparr>, \<lparr>journal_it = 0, sequence_it = 102\<rparr>)
     \<lparr>seq_begin = 200, seq_size = 4\<rparr> =
   Some ([\<lparr>position = 0, sequence = \<lparr>seq_begin = 100, seq_size = 2\<rparr>\<rparr>,
          \<lparr>position = 2, sequence = \<lparr>seq_begin = 200, seq_size = 4\<rparr>\<rparr>,
          \<lparr>position = 6, sequence = \<lparr>seq_begin = 102, seq_size = 2\<rparr>\<rparr>,
          \<lparr>position = 8, sequence = \<lparr>seq_begin = 0, seq_size = 0\<rparr>\<rparr>], 1) \<and>
   valid_breakend
     [\<lparr>position = 0, sequence = \<lparr>seq_begin = 100, seq_size = 2\<rparr>\<rparr>,
      \<lparr>position = 2, sequence = \<lparr>seq_begin = 200, seq_size = 4\<rparr>\<rparr>,
      \<lparr>position = 6, sequence = \<lparr>seq_begin = 102, seq_size = 2\<rparr>\<rparr>,
      \<lparr>position = 8, sequence = \<lparr>seq_begin = 0, seq_size = 0\<rparr>\<rparr>]
     \<lparr>journal_it = 0, sequence_it = 102\<rparr> \<and>
   valid_breakend
     [\<lparr>position = 0, sequence = \<lparr>seq_begin = 100, seq_size = 2\<rparr>\<rparr>,
      \<lparr>position = 2, sequence = \<lparr>seq_begin = 200, seq_size = 4\<rparr>\<rparr>,
      \<lparr>position = 6, sequence = \<lparr>seq_begin = 102, seq_size = 2\<rparr>\<rparr>,
      \<lparr>position = 8, sequence = \<lparr>seq_begin = 0, seq_size = 0\<rparr>\<rparr>]
     \<lparr>journal_it = 1, sequence_it = 200\<rparr> \<and>
   linear_offset
     [\<lparr>position = 0, sequence = \<lparr>seq_begin = 100, seq_size = 2\<rparr>\<rparr>,
      \<lparr>position = 2, sequence = \<lparr>seq_begin = 200, seq_size = 4\<rparr>\<rparr>,
      \<lparr>position = 6, sequence = \<lparr>seq_begin = 102, seq_size = 2\<rparr>\<rparr>,
      \<lparr>position = 8, sequence = \<lparr>seq_begin = 0, seq_size = 0\<rparr>\<rparr>]
     \<lparr>journal_it = 0, sequence_it = 102\<rparr> = 2 \<and>
   linear_offset
     [\<lparr>position = 0, sequence = \<lparr>seq_begin = 100, seq_size = 2\<rparr>\<rparr>,
      \<lparr>position = 2, sequence = \<lparr>seq_begin = 200, seq_size = 4\<rparr>\<rparr>,
      \<lparr>position = 6, sequence = \<lparr>seq_begin = 102, seq_size = 2\<rparr>\<rparr>,
      \<lparr>position = 8, sequence = \<lparr>seq_begin = 0, seq_size = 0\<rparr>\<rparr>]
     \<lparr>journal_it = 1, sequence_it = 200\<rparr> = 2 \<and>
   breakend_compare \<lparr>journal_it = 0, sequence_it = 102\<rparr> \<lparr>journal_it = 1, sequence_it = 200\<rparr> = Less \<and>
   \<not> breakend_eq \<lparr>journal_it = 0, sequence_it = 102\<rparr> \<lparr>journal_it = 1, sequence_it = 200\<rparr>"
  by (simp add: journal_defs linear_offset_def breakend_eq_def)

text \<open>
  C5, amended. For two dereferenceable breakends of a journal that satisfies the invariant:
  a smaller linear offset implies comparing less; comparing less implies a linear offset
  that is smaller or equal; comparing equal means being the same breakend; for two breakends
  in the same record, and for two breakends neither of which is the end of the segment of
  a record other than the sentinel, the comparison is exactly the comparison of the linear
  offsets; the conversion yields the linear offset and the subtraction the signed
  difference of the linear offsets.
\<close>

theorem breakend_order_and_distance:
  assumes "journal_inv J" "valid_breakend J a" "valid_breakend J b"
  shows "(linear_offset J a < linear_offset J b \<longrightarrow> breakend_compare a b = Less) \<and>
         (breakend_compare a b = Less \<longrightarrow> linear_offset J a \<le> linear_offset J b) \<and>
         (breakend_compare a b = Equal \<longleftrightarrow> a = b) \<and>
         (journal_it a = journal_it b \<or> (\<not> ends_segment J a \<and> \<not> ends_segment J b) \<longrightarrow>
            (breakend_compare a b = Less \<longleftrightarrow> linear_offset J a < linear_offset J b) \<and>
            (breakend_compare a b = Equal \<longleftrightarrow> linear_offset J a = linear_offset J b)) \<and>
         to_integral J a = Some (linear_offset J a) \<and>
         to_integral J b = Some (linear_offset J b) \<and>
         breakend_minus J a b = Some (linear_offset J a - linear_offset J b)"
proof -
  have la: "linear_offset J a = int (location J a)" and lb: "linear_offset J b = int (location J b)"
    using assms by (simp_all add: linear_offset_location)
  have less: "breakend_compare a b = Less \<longrightarrow> location J a \<le> location J b"
    using location_mono [OF assms(2) assms(3)] by simp
  have greater: "breakend_compare a b = Greater \<longrightarrow> location J b \<le> location J a"
  proof
    assume "breakend_compare a b = Greater"
    then have "breakend_compare b a = Less" by (simp only: breakend_compare_swap)
    then have "breakend_compare b a \<noteq> Greater" by simp
    with assms(3) assms(2) show "location J b \<le> location J a" by (rule location_mono)
  qed
  have eq: "breakend_compare a b = Equal \<longleftrightarrow> a = b" by (rule breakend_compare_Equal)
  have "location J a < location J b \<longrightarrow> breakend_compare a b = Less"
  proof
    assume lt: "location J a < location J b"
    show "breakend_compare a b = Less"
    proof (cases "breakend_compare a b")
      case Less then show ?thesis .
    next
      case Equal with eq lt show ?thesis by simp
    next
      case Greater with greater lt show ?thesis by simp
    qed
  qed
  moreover have "journal_it a = journal_it b \<or> (\<not> ends_segment J a \<and> \<not> ends_segment J b) \<longrightarrow>
            (breakend_compare a b = Less \<longleftrightarrow> location J a < location J b) \<and>
            (breakend_compare a b = Equal \<longleftrightarrow> location J a = location J b)"
  proof
    assume c: "journal_it a = journal_it b \<or> (\<not> ends_segment J a \<and> \<not> ends_segment J b)"
    consider (same) "journal_it a = journal_it b"
      | (lt) "journal_it a < journal_it b" "\<not> ends_segment J a"
      | (gt) "journal_it b < journal_it a" "\<not> ends_segment J b"
      using c by linarith
    then show "(breakend_compare a b = Less \<longleftrightarrow> location J a < location J b) \<and>
               (breakend_compare a b = Equal \<longleftrightarrow> location J a = location J b)"
    proof cases
      case same
      then show ?thesis using same_record_compare [OF assms(2) assms(3)] by blast
    next
      case lt
      have "location J a < location J b"
        using assms(2) assms(3) lt by (rule location_strict_mono)
      moreover have "breakend_compare a b = Less"
        using lt(1) by (simp add: breakend_compare_def compare_three_way_def)
      ultimately show ?thesis by simp
    next
      case gt
      have "location J b < location J a"
        using assms(3) assms(2) gt by (rule location_strict_mono)
      moreover have "breakend_compare a b = Greater"
        using gt(1) by (simp add: breakend_compare_def compare_three_way_def)
      ultimately show ?thesis by simp
    qed
  qed
  moreover have "breakend_minus J a b = Some (int (location J a) - int (location J b))"
    by (simp add: breakend_minus_def to_integral_valid [OF assms(1) assms(2)]
        to_integral_valid [OF assms(1) assms(3)])
  moreover have "to_integral J a = Some (int (location J a))"
    using assms(1) assms(2) by (rule to_integral_valid)
  moreover have "to_integral J b = Some (int (location J b))"
    using assms(1) assms(3) by (rule to_integral_valid)
  ultimately show ?thesis using less eq unfolding la lb by simp
qed

theorem breakend_order_and_distance_witness:
  "journal_inv
     [\<lparr>position = 0, sequence = \<lparr>seq_begin = 100, seq_size = 2\<rparr>\<rparr>,
      \<lparr>position = 2, sequence = \<lparr>seq_begin = 200, seq_size = 4\<rparr>\<rparr>,
      \<lparr>position = 6, sequence = \<lparr>seq_begin = 102, seq_size = 2\<rparr>\<rparr>,
      \<lparr>position = 8, sequence = \<lparr>seq_begin = 0, seq_size = 0\<rparr>\<rparr>] \<and>
   valid_breakend
     [\<lparr>position = 0, sequence = \<lparr>seq_begin = 100, seq_size = 2\<rparr>\<rparr>,
      \<lparr>position = 2, sequence = \<lparr>seq_begin = 200, seq_size = 4\<rparr>\<rparr>,
      \<lparr>position = 6, sequence = \<lparr>seq_begin = 102, seq_size = 2\<rparr>\<rparr>,
      \<lparr>position = 8, sequence = \<lparr>seq_begin = 0, seq_size = 0\<rparr>\<rparr>]
     \<lparr>journal_it = 0, sequence_it = 101\<rparr> \<and>
   valid_breakend
     [\<lparr>position = 0, sequence = \<lparr>seq_begin = 100, seq_size = 2\<rparr>\<rparr>,
      \<lparr>position = 2, sequence = \<lparr>seq_begin = 200, seq_size = 4\<rparr>\<rparr>,
      \<lparr>position = 6, sequence = \<lparr>seq_begin = 102, seq_size = 2\<rparr>\<rparr>,
      \<lparr>position = 8, sequence = \<lparr>seq_begin = 0, seq_size = 0\<rparr>\<rparr>]
     \<lparr>journal_it = 1, sequence_it = 202\<rparr> \<and>
   breakend_compare \<lparr>journal_it = 0, sequence_it = 101\<rparr> \<lparr>journal_it = 1, sequence_it = 202\<rparr> = Less \<and>
   breakend_minus
     [\<lparr>position = 0, sequence = \<lparr>seq_begin = 100, seq_size = 2\<rparr>\<rparr>,
      \<lparr>position = 2, sequence = \<lparr>seq_begin = 200, seq_size = 4\<rparr>\<rparr>,
      \<lparr>position = 6, sequence = \<lparr>seq_begin = 102, seq_size = 2\<rparr>\<rparr>,
      \<lparr>position = 8, sequence = \<lparr>seq_begin = 0, seq_size = 0\<rparr>\<rparr>]
     \<lparr>journal_it = 0, sequence_it = 101\<rparr> \<lparr>journal_it = 1, sequence_it = 202\<rparr> = Some (- 3)"
proof -
  let ?J = "[\<lparr>position = 0, sequence = \<lparr>seq_begin = 100, seq_size = 2\<rparr>\<rparr>,
      \<lparr>position = 2, sequence = \<lparr>seq_begin = 200, seq_size = 4\<rparr>\<rparr>,
      \<lparr>position = 6, sequence = \<lparr>seq_begin = 102, seq_size = 2\<rparr>\<rparr>,
      \<lparr>position = 8, sequence = \<lparr>seq_begin = 0, seq_size = 0\<rparr>\<rparr>]"
  let ?a = "\<lparr>journal_it = 0, sequence_it = 101\<rparr>" and ?b = "\<lparr>journal_it = 1, sequence_it = 202\<rparr>"
  have h1: "journal_inv ?J" by (simp add: journal_inv_def segment_size_def total_size_def)
  have h2: "valid_breakend ?J ?a" and h3: "valid_breakend ?J ?b"
    by (simp_all add: valid_breakend_def seq_end_def)
  have o: "linear_offset ?J ?a = 1" "linear_offset ?J ?b = 4"
    by (simp_all add: linear_offset_def)
  from breakend_order_and_distance [OF h1 h2 h3]
  have "breakend_compare ?a ?b = Less" and "breakend_minus ?J ?a ?b = Some (- 3)"
    unfolding o by simp_all
  with h1 h2 h3 show ?thesis by blast
qed

subsection \<open>C6: the trailing sentinel\<close>

text \<open>
  C6. After construction and after every valid \<^verbatim>\<open>record\<close> call the last record of the vector
  has an empty segment and its position is the length of the derived sequence; it is not
  counted by \<^verbatim>\<open>size()\<close>, and \<^verbatim>\<open>end()\<close> points at it, so the records of
  \<open>[begin(), end())\<close> are all records but the last.
\<close>

theorem sentinel_after_records:
  assumes "seq_size source < 2 ^ 63"
    and "valid_calls (initialize_journal source) calls"
  shows "\<exists>J. record_all (initialize_journal source) calls = Some J \<and>
             J \<noteq> [] \<and>
             seq_size (sequence (last J)) = 0 \<and>
             position (last J) = length (derived mem J) \<and>
             size_journal J = length J - 1 \<and>
             end_journal J = Some (length J - 1) \<and>
             map ((!) J) [begin_journal J ..< length J - 1] = butlast J"
proof -
  have "journal_inv (initialize_journal source)"
    using assms(1) by (rule journal_inv_initialize)
  from record_all_valid [OF this assms(2), of mem]
  obtain J where J: "record_all (initialize_journal source) calls = Some J" and inv: "journal_inv J"
    by blast
  from inv have ne: "J \<noteq> []" and sent: "segment_size (last J) = 0"
    by (simp_all add: journal_inv_def)
  have "position (last J) = length (derived mem J)"
    using inv by (simp add: position_last length_derived)
  moreover have "size_journal J = length J - 1" using ne by (simp add: size_journal_def)
  moreover have "end_journal J = Some (length J - 1)" using ne by (simp add: end_journal_def)
  moreover have "map ((!) J) [begin_journal J ..< length J - 1] = butlast J"
    unfolding begin_journal_def by (rule range_butlast)
  ultimately show ?thesis using J ne sent by (auto simp: segment_size_def)
qed

theorem sentinel_after_records_witness:
  "seq_size \<lparr>seq_begin = 100, seq_size = 4\<rparr> < 2 ^ 63 \<and>
   valid_calls (initialize_journal \<lparr>seq_begin = 100, seq_size = 4\<rparr>)
     [((\<lparr>journal_it = 0, sequence_it = 101\<rparr>, \<lparr>journal_it = 0, sequence_it = 103\<rparr>),
       \<lparr>seq_begin = 200, seq_size = 4\<rparr>)] \<and>
   (\<exists>J. record_all (initialize_journal \<lparr>seq_begin = 100, seq_size = 4\<rparr>)
     [((\<lparr>journal_it = 0, sequence_it = 101\<rparr>, \<lparr>journal_it = 0, sequence_it = 103\<rparr>),
       \<lparr>seq_begin = 200, seq_size = 4\<rparr>)] = Some J \<and>
     seq_size (sequence (last J)) = 0 \<and>
     position (last J) = length (derived (\<lambda>a. if a < 200 then ''ACGT'' ! (a - 100) else ''TGCA'' ! (a - 200)) J) \<and>
     size_journal J = length J - 1 \<and> end_journal J = Some (length J - 1))"
proof -
  let ?src = "\<lparr>seq_begin = 100, seq_size = 4\<rparr>"
  let ?calls = "[((\<lparr>journal_it = 0, sequence_it = 101\<rparr>, \<lparr>journal_it = 0, sequence_it = 103\<rparr>),
       \<lparr>seq_begin = 200, seq_size = 4\<rparr>)]"
  let ?mem = "\<lambda>a::nat. if a < 200 then ''ACGT'' ! (a - 100) else ''TGCA'' ! (a - 200)"
  have h1: "seq_size ?src < 2 ^ 63" by simp
  have h2: "valid_calls (initialize_journal ?src) ?calls"
    by (simp add: journal_defs)
  from sentinel_after_records [OF h1 h2, of ?mem] h1 h2
  show ?thesis by blast
qed

subsection \<open>C7: adjacent empty records\<close>

text \<open>
  C7, as stated, fails: \<^verbatim>\<open>record_inline\<close> merges nothing. A call whose high breakend is the
  end of the last segment overwrites that entry with an empty suffix, which then stands
  next to the empty sentinel.
\<close>

theorem record_at_segment_end_leaves_adjacent_empty:
  "valid_calls (initialize_journal \<lparr>seq_begin = 100, seq_size = 4\<rparr>)
     [((\<lparr>journal_it = 0, sequence_it = 104\<rparr>, \<lparr>journal_it = 0, sequence_it = 104\<rparr>),
       \<lparr>seq_begin = 200, seq_size = 4\<rparr>)] \<and>
   record_all (initialize_journal \<lparr>seq_begin = 100, seq_size = 4\<rparr>)
     [((\<lparr>journal_it = 0, sequence_it = 104\<rparr>, \<lparr>journal_it = 0, sequence_it = 104\<rparr>),
       \<lparr>seq_begin = 200, seq_size = 4\<rparr>)] =
   Some [\<lparr>position = 0, sequence = \<lparr>seq_begin = 100, seq_size = 4\<rparr>\<rparr>,
         \<lparr>position = 4, sequence = \<lparr>seq_begin = 200, seq_size = 4\<rparr>\<rparr>,
         \<lparr>position = 8, sequence = \<lparr>seq_begin = 104, seq_size = 0\<rparr>\<rparr>,
         \<lparr>position = 8, sequence = \<lparr>seq_begin = 0, seq_size = 0\<rparr>\<rparr>] \<and>
   adjacent_empty
        [\<lparr>position = 0, sequence = \<lparr>seq_begin = 100, seq_size = 4\<rparr>\<rparr>,
         \<lparr>position = 4, sequence = \<lparr>seq_begin = 200, seq_size = 4\<rparr>\<rparr>,
         \<lparr>position = 8, sequence = \<lparr>seq_begin = 104, seq_size = 0\<rparr>\<rparr>,
         \<lparr>position = 8, sequence = \<lparr>seq_begin = 0, seq_size = 0\<rparr>\<rparr>]"
  by (simp add: journal_defs)

text \<open>
  C7, amended. After any sequence of valid \<^verbatim>\<open>record\<close> calls on a new journal, none of whose
  high breakends is the end of the segment of a record other than the sentinel, every
  record but the sentinel has a non-empty segment, so no two adjacent records are empty.
\<close>

theorem no_adjacent_empty_records:
  assumes "seq_size source < 2 ^ 63"
    and "inner_calls (initialize_journal source) calls"
  shows "\<exists>J. record_all (initialize_journal source) calls = Some J \<and>
             \<not> adjacent_empty J \<and>
             (\<forall>r \<in> set (butlast J). seq_size (sequence r) \<noteq> 0)"
proof -
  have inv: "journal_inv (initialize_journal source)"
    using assms(1) by (rule journal_inv_initialize)
  have ne: "\<forall>r \<in> set (butlast (initialize_journal source)). segment_size r \<noteq> 0"
    by (simp add: initialize_journal_def segment_size_def breakpoint_slice_def to_breakpoint_def
        seq_end_def)
  from inner_calls_result [OF inv ne assms(2)]
  obtain J where J: "record_all (initialize_journal source) calls = Some J"
    and nJ: "\<forall>r \<in> set (butlast J). segment_size r \<noteq> 0"
    by blast
  from nJ have "\<not> adjacent_empty J" by (rule not_adjacent_empty)
  with J nJ show ?thesis by (auto simp: segment_size_def)
qed

theorem no_adjacent_empty_records_witness:
  "seq_size \<lparr>seq_begin = 100, seq_size = 4\<rparr> < 2 ^ 63 \<and>
   inner_calls (initialize_journal \<lparr>seq_begin = 100, seq_size = 4\<rparr>)
     [((\<lparr>journal_it = 0, sequence_it = 102\<rparr>, \<lparr>journal_it = 0, sequence_it = 102\<rparr>),
       \<lparr>seq_begin = 200, seq_size = 4\<rparr>),
      ((\<lparr>journal_it = 0, sequence_it = 101\<rparr>, \<lparr>journal_it = 3, sequence_it = 0\<rparr>),
       \<lparr>seq_begin = 0, seq_size = 0\<rparr>)] \<and>
   (\<exists>J. record_all (initialize_journal \<lparr>seq_begin = 100, seq_size = 4\<rparr>)
     [((\<lparr>journal_it = 0, sequence_it = 102\<rparr>, \<lparr>journal_it = 0, sequence_it = 102\<rparr>),
       \<lparr>seq_begin = 200, seq_size = 4\<rparr>),
      ((\<lparr>journal_it = 0, sequence_it = 101\<rparr>, \<lparr>journal_it = 3, sequence_it = 0\<rparr>),
       \<lparr>seq_begin = 0, seq_size = 0\<rparr>)] = Some J \<and>
     \<not> adjacent_empty J)"
proof -
  let ?src = "\<lparr>seq_begin = 100, seq_size = 4\<rparr>"
  let ?calls = "[((\<lparr>journal_it = 0, sequence_it = 102\<rparr>, \<lparr>journal_it = 0, sequence_it = 102\<rparr>),
       \<lparr>seq_begin = 200, seq_size = 4\<rparr>),
      ((\<lparr>journal_it = 0, sequence_it = 101\<rparr>, \<lparr>journal_it = 3, sequence_it = 0\<rparr>),
       \<lparr>seq_begin = 0, seq_size = 0\<rparr>)]"
  have h1: "seq_size ?src < 2 ^ 63" by simp
  have h2: "inner_calls (initialize_journal ?src) ?calls"
    by (simp add: journal_defs ends_segment_def)
  from no_adjacent_empty_records [OF h1 h2] h1 h2
  show ?thesis by blast
qed

subsection \<open>C8: the positions after a call\<close>

text \<open>
  C8. For a valid \<^verbatim>\<open>record(bp, alt)\<close> call on a journal that satisfies the invariant, with
  \<open>d\<close> the span of \<open>bp\<close> in the derived sequence and \<open>i\<close> the length of \<open>alt\<close>: the records
  before the low anchor are unchanged, the new entries follow, and from the first record
  after them (the suffix \<open>Q\<close> of the high anchor) onward every record, the sentinel
  included, has \<open>i - d\<close> added to its position.
\<close>

theorem record_shifts_positions:
  assumes "journal_inv J" and "valid_record_call J bp alt"
    and "record_journal J bp alt = Some (J', it)"
  shows "breakend_span J bp =
           Some (int (location J (high_breakend bp)) - int (location J (low_breakend bp))) \<and>
         J' = take (journal_it (low_breakend bp)) J @
              inserted_entries J (low_breakend bp) alt @
              map (add_to_position (edit_shift J bp alt))
                (suffix_record J (high_breakend bp) # drop (Suc (journal_it (high_breakend bp))) J) \<and>
         (\<forall>r \<in> set (suffix_record J (high_breakend bp) # drop (Suc (journal_it (high_breakend bp))) J).
            int (position (add_to_position (edit_shift J bp alt) r)) =
            int (position r) + edit_shift J bp alt) \<and>
         int (position (last J')) = int (position (last J)) + edit_shift J bp alt"
proof -
  obtain lo hi where bp: "bp = (lo, hi)" by (cases bp)
  let ?off = "int (seq_size alt) - (int (location J hi) - int (location J lo))"
  let ?R = "suffix_record J hi # drop (Suc (journal_it hi)) J"
  have call: "valid_record_call J (lo, hi) alt" using assms(2) by (simp add: bp)
  have rec: "record_inline J (lo, hi) alt = Some (J', it)"
    using assms(3) by (simp add: bp record_journal_def)
  have vlo: "valid_breakend J lo" and vhi: "valid_breakend J hi"
    and ord: "breakend_compare lo hi \<noteq> Greater"
    using call by (simp_all add: valid_record_call_def low_breakend_def high_breakend_def)
  have shift: "edit_shift J bp alt = ?off"
    by (simp add: edit_shift_def bp low_breakend_def high_breakend_def)
  have span: "breakend_span J (lo, hi) = Some (int (location J hi) - int (location J lo))"
    by (simp add: breakend_span_def breakend_minus_def low_breakend_def high_breakend_def
        to_integral_valid [OF assms(1) vlo] to_integral_valid [OF assms(1) vhi])
  have J': "J' = take (journal_it lo) J @ inserted_entries J lo alt @ map (add_to_position ?off) ?R"
    using rec unfolding record_inline_valid [OF assms(1) call] by simp
  have lohi: "location J lo \<le> location J hi" using vlo vhi ord by (rule location_mono)
  have exact: "\<forall>r \<in> set ?R. int (position (add_to_position ?off r)) = int (position r) + ?off"
  proof
    fix r assume "r \<in> set ?R"
    then have "location J hi \<le> position r"
      using position_tail_ge(1) [OF assms(1) vhi, of r] by (auto simp: suffix_record_def)
    then have "0 \<le> int (position r) + ?off" using lohi by linarith
    then show "int (position (add_to_position ?off r)) = int (position r) + ?off" by simp
  qed
  have inv': "journal_inv J'"
    using assms(1) call rec by (rule journal_inv_record_inline(1))
  have "total_size J' + location J hi = total_size J + location J lo + seq_size alt"
    using assms(1) call rec by (rule journal_inv_record_inline(2))
  then have "int (total_size J') = int (total_size J) + ?off" by linarith
  then have last: "int (position (last J')) = int (position (last J)) + ?off"
    using inv' assms(1) by (simp add: position_last)
  show ?thesis
    unfolding shift using span J' exact last by (simp add: bp low_breakend_def high_breakend_def)
qed

theorem record_shifts_positions_witness:
  "journal_inv (initialize_journal \<lparr>seq_begin = 100, seq_size = 4\<rparr>) \<and>
   valid_record_call (initialize_journal \<lparr>seq_begin = 100, seq_size = 4\<rparr>)
     (\<lparr>journal_it = 0, sequence_it = 101\<rparr>, \<lparr>journal_it = 0, sequence_it = 103\<rparr>)
     \<lparr>seq_begin = 200, seq_size = 4\<rparr> \<and>
   record_journal (initialize_journal \<lparr>seq_begin = 100, seq_size = 4\<rparr>)
     (\<lparr>journal_it = 0, sequence_it = 101\<rparr>, \<lparr>journal_it = 0, sequence_it = 103\<rparr>)
     \<lparr>seq_begin = 200, seq_size = 4\<rparr> =
   Some ([\<lparr>position = 0, sequence = \<lparr>seq_begin = 100, seq_size = 1\<rparr>\<rparr>,
          \<lparr>position = 1, sequence = \<lparr>seq_begin = 200, seq_size = 4\<rparr>\<rparr>,
          \<lparr>position = 5, sequence = \<lparr>seq_begin = 103, seq_size = 1\<rparr>\<rparr>,
          \<lparr>position = 6, sequence = \<lparr>seq_begin = 0, seq_size = 0\<rparr>\<rparr>], 1) \<and>
   edit_shift (initialize_journal \<lparr>seq_begin = 100, seq_size = 4\<rparr>)
     (\<lparr>journal_it = 0, sequence_it = 101\<rparr>, \<lparr>journal_it = 0, sequence_it = 103\<rparr>)
     \<lparr>seq_begin = 200, seq_size = 4\<rparr> = 2 \<and>
   breakend_span (initialize_journal \<lparr>seq_begin = 100, seq_size = 4\<rparr>)
     (\<lparr>journal_it = 0, sequence_it = 101\<rparr>, \<lparr>journal_it = 0, sequence_it = 103\<rparr>) = Some 2 \<and>
   int (position (last
          [\<lparr>position = 0, sequence = \<lparr>seq_begin = 100, seq_size = 1\<rparr>\<rparr>,
           \<lparr>position = 1, sequence = \<lparr>seq_begin = 200, seq_size = 4\<rparr>\<rparr>,
           \<lparr>position = 5, sequence = \<lparr>seq_begin = 103, seq_size = 1\<rparr>\<rparr>,
           \<lparr>position = 6, sequence = \<lparr>seq_begin = 0, seq_size = 0\<rparr>\<rparr>])) =
   int (position (last (initialize_journal \<lparr>seq_begin = 100, seq_size = 4\<rparr>))) + 2"
proof -
  let ?J = "initialize_journal \<lparr>seq_begin = 100, seq_size = 4\<rparr>"
  let ?bp = "(\<lparr>journal_it = 0, sequence_it = 101\<rparr>, \<lparr>journal_it = 0, sequence_it = 103\<rparr>)"
  let ?alt = "\<lparr>seq_begin = 200, seq_size = 4\<rparr>"
  let ?J' = "[\<lparr>position = 0, sequence = \<lparr>seq_begin = 100, seq_size = 1\<rparr>\<rparr>,
          \<lparr>position = 1, sequence = \<lparr>seq_begin = 200, seq_size = 4\<rparr>\<rparr>,
          \<lparr>position = 5, sequence = \<lparr>seq_begin = 103, seq_size = 1\<rparr>\<rparr>,
          \<lparr>position = 6, sequence = \<lparr>seq_begin = 0, seq_size = 0\<rparr>\<rparr>]"
  have h1: "journal_inv ?J" by (simp add: journal_inv_initialize)
  have h2: "valid_record_call ?J ?bp ?alt" by (simp add: journal_defs)
  have h3: "record_journal ?J ?bp ?alt = Some (?J', 1)" by (simp add: journal_defs)
  have s: "edit_shift ?J ?bp ?alt = 2" by (simp add: edit_shift_def journal_defs)
  have l: "int (location ?J (high_breakend ?bp)) - int (location ?J (low_breakend ?bp)) = 2"
    by (simp add: journal_defs)
  from record_shifts_positions [OF h1 h2 h3]
  have "breakend_span ?J ?bp = Some 2"
    and "int (position (last ?J')) = int (position (last ?J)) + 2"
    unfolding s l by blast+
  with h1 h2 h3 s show ?thesis by blast
qed

subsection \<open>C9: undoing an edit\<close>

text \<open>
  C9. Recording an edit and then recording the original symbols back over the interval the
  edit produced restores the derived sequence, and the journal again satisfies the position
  invariant with the sentinel at its former position. A substitution is the case of a
  non-empty interval and a non-empty \<open>alt\<close>.
\<close>

theorem substitution_undo:
  assumes "journal_inv J" and "valid_record_call J bp alt"
    and "record_journal J bp alt = Some (J', it)"
    and "valid_record_call J' bp' orig"
    and "location J' (low_breakend bp') = location J (low_breakend bp)"
    and "location J' (high_breakend bp') = location J (low_breakend bp) + seq_size alt"
    and "spell mem orig =
           take (location J (high_breakend bp) - location J (low_breakend bp))
             (drop (location J (low_breakend bp)) (derived mem J))"
    and "record_journal J' bp' orig = Some (J'', it')"
  shows "derived mem J'' = derived mem J \<and>
         check_journal_invariants J'' \<and>
         position (hd J'') = 0 \<and>
         (\<forall>i. Suc i < length J'' \<longrightarrow>
              position (J'' ! Suc i) = position (J'' ! i) + seq_size (sequence (J'' ! i))) \<and>
         position (last J'') = position (last J)"
proof -
  obtain lo hi where bp: "bp = (lo, hi)" by (cases bp)
  obtain lo' hi' where bp': "bp' = (lo', hi')" by (cases bp')
  let ?l = "location J lo" and ?h = "location J hi"
  have call: "valid_record_call J (lo, hi) alt" using assms(2) by (simp add: bp)
  have rec: "record_inline J (lo, hi) alt = Some (J', it)"
    using assms(3) by (simp add: bp record_journal_def)
  have call': "valid_record_call J' (lo', hi') orig" using assms(4) by (simp add: bp')
  have rec': "record_inline J' (lo', hi') orig = Some (J'', it')"
    using assms(8) by (simp add: bp' record_journal_def)
  have l': "location J' lo' = ?l" and h': "location J' hi' = ?l + seq_size alt"
    using assms(5) assms(6) by (simp_all add: bp bp' low_breakend_def high_breakend_def)
  have orig: "spell mem orig = take (?h - ?l) (drop ?l (derived mem J))"
    using assms(7) by (simp add: bp low_breakend_def high_breakend_def)
  have vlo: "valid_breakend J lo" and vhi: "valid_breakend J hi"
    and ord: "breakend_compare lo hi \<noteq> Greater"
    using call by (simp_all add: valid_record_call_def low_breakend_def high_breakend_def)
  have lh: "?l \<le> ?h" using vlo vhi ord by (rule location_mono)
  have hD: "?h \<le> length (derived mem J)"
    using location_le_total [OF vhi] by (simp add: length_derived)
  have inv': "journal_inv J'" using assms(1) call rec by (rule journal_inv_record_inline(1))
  have inv'': "journal_inv J''" using inv' call' rec' by (rule journal_inv_record_inline(1))
  have d': "derived mem J' = apply_edit (derived mem J) ?l ?h (spell mem alt)"
    unfolding apply_edit_def using assms(1) call rec by (rule derived_record_inline)
  have "derived mem J'' =
        apply_edit (derived mem J') (location J' lo') (location J' hi') (spell mem orig)"
    unfolding apply_edit_def using inv' call' rec' by (rule derived_record_inline)
  then have d'': "derived mem J'' = derived mem J"
    unfolding d' l' h' orig using edit_then_inverse [OF lh hD length_spell] by simp
  then have "length (derived mem J'') = length (derived mem J)" by simp
  then have "total_size J'' = total_size J" by (simp add: length_derived)
  then have last: "position (last J'') = position (last J)"
    using inv'' assms(1) by (simp add: position_last)
  from inv'' have ne: "J'' \<noteq> []" and ch: "chained 0 J''" by (simp_all add: journal_inv_def)
  have "position (hd J'') = 0" using ne ch by (cases J'') simp_all
  moreover have "\<forall>i. Suc i < length J'' \<longrightarrow>
                  position (J'' ! Suc i) = position (J'' ! i) + seq_size (sequence (J'' ! i))"
    using ch by (simp add: chained_adjacent)
  ultimately show ?thesis using d'' last journal_inv_check [OF inv''] by blast
qed

theorem substitution_undo_witness:
  "journal_inv (initialize_journal \<lparr>seq_begin = 100, seq_size = 4\<rparr>) \<and>
   valid_record_call (initialize_journal \<lparr>seq_begin = 100, seq_size = 4\<rparr>)
     (\<lparr>journal_it = 0, sequence_it = 101\<rparr>, \<lparr>journal_it = 0, sequence_it = 103\<rparr>)
     \<lparr>seq_begin = 200, seq_size = 4\<rparr> \<and>
   record_journal (initialize_journal \<lparr>seq_begin = 100, seq_size = 4\<rparr>)
     (\<lparr>journal_it = 0, sequence_it = 101\<rparr>, \<lparr>journal_it = 0, sequence_it = 103\<rparr>)
     \<lparr>seq_begin = 200, seq_size = 4\<rparr> =
   Some ([\<lparr>position = 0, sequence = \<lparr>seq_begin = 100, seq_size = 1\<rparr>\<rparr>,
          \<lparr>position = 1, sequence = \<lparr>seq_begin = 200, seq_size = 4\<rparr>\<rparr>,
          \<lparr>position = 5, sequence = \<lparr>seq_begin = 103, seq_size = 1\<rparr>\<rparr>,
          \<lparr>position = 6, sequence = \<lparr>seq_begin = 0, seq_size = 0\<rparr>\<rparr>], 1) \<and>
   record_journal
     [\<lparr>position = 0, sequence = \<lparr>seq_begin = 100, seq_size = 1\<rparr>\<rparr>,
      \<lparr>position = 1, sequence = \<lparr>seq_begin = 200, seq_size = 4\<rparr>\<rparr>,
      \<lparr>position = 5, sequence = \<lparr>seq_begin = 103, seq_size = 1\<rparr>\<rparr>,
      \<lparr>position = 6, sequence = \<lparr>seq_begin = 0, seq_size = 0\<rparr>\<rparr>]
     (\<lparr>journal_it = 1, sequence_it = 200\<rparr>, \<lparr>journal_it = 2, sequence_it = 103\<rparr>)
     \<lparr>seq_begin = 101, seq_size = 2\<rparr> =
   Some ([\<lparr>position = 0, sequence = \<lparr>seq_begin = 100, seq_size = 1\<rparr>\<rparr>,
          \<lparr>position = 1, sequence = \<lparr>seq_begin = 101, seq_size = 2\<rparr>\<rparr>,
          \<lparr>position = 3, sequence = \<lparr>seq_begin = 103, seq_size = 1\<rparr>\<rparr>,
          \<lparr>position = 4, sequence = \<lparr>seq_begin = 0, seq_size = 0\<rparr>\<rparr>], 1) \<and>
   derived (\<lambda>a. if a < 200 then ''ACGT'' ! (a - 100) else ''TGCA'' ! (a - 200))
     [\<lparr>position = 0, sequence = \<lparr>seq_begin = 100, seq_size = 1\<rparr>\<rparr>,
      \<lparr>position = 1, sequence = \<lparr>seq_begin = 101, seq_size = 2\<rparr>\<rparr>,
      \<lparr>position = 3, sequence = \<lparr>seq_begin = 103, seq_size = 1\<rparr>\<rparr>,
      \<lparr>position = 4, sequence = \<lparr>seq_begin = 0, seq_size = 0\<rparr>\<rparr>] =
   derived (\<lambda>a. if a < 200 then ''ACGT'' ! (a - 100) else ''TGCA'' ! (a - 200))
     (initialize_journal \<lparr>seq_begin = 100, seq_size = 4\<rparr>) \<and>
   check_journal_invariants
     [\<lparr>position = 0, sequence = \<lparr>seq_begin = 100, seq_size = 1\<rparr>\<rparr>,
      \<lparr>position = 1, sequence = \<lparr>seq_begin = 101, seq_size = 2\<rparr>\<rparr>,
      \<lparr>position = 3, sequence = \<lparr>seq_begin = 103, seq_size = 1\<rparr>\<rparr>,
      \<lparr>position = 4, sequence = \<lparr>seq_begin = 0, seq_size = 0\<rparr>\<rparr>]"
proof -
  let ?mem = "\<lambda>a::nat. if a < 200 then ''ACGT'' ! (a - 100) else ''TGCA'' ! (a - 200)"
  let ?J = "initialize_journal \<lparr>seq_begin = 100, seq_size = 4\<rparr>"
  let ?bp = "(\<lparr>journal_it = 0, sequence_it = 101\<rparr>, \<lparr>journal_it = 0, sequence_it = 103\<rparr>)"
  let ?alt = "\<lparr>seq_begin = 200, seq_size = 4\<rparr>"
  let ?J' = "[\<lparr>position = 0, sequence = \<lparr>seq_begin = 100, seq_size = 1\<rparr>\<rparr>,
          \<lparr>position = 1, sequence = \<lparr>seq_begin = 200, seq_size = 4\<rparr>\<rparr>,
          \<lparr>position = 5, sequence = \<lparr>seq_begin = 103, seq_size = 1\<rparr>\<rparr>,
          \<lparr>position = 6, sequence = \<lparr>seq_begin = 0, seq_size = 0\<rparr>\<rparr>]"
  let ?bp' = "(\<lparr>journal_it = 1, sequence_it = 200\<rparr>, \<lparr>journal_it = 2, sequence_it = 103\<rparr>)"
  let ?orig = "\<lparr>seq_begin = 101, seq_size = 2\<rparr>"
  let ?J'' = "[\<lparr>position = 0, sequence = \<lparr>seq_begin = 100, seq_size = 1\<rparr>\<rparr>,
          \<lparr>position = 1, sequence = \<lparr>seq_begin = 101, seq_size = 2\<rparr>\<rparr>,
          \<lparr>position = 3, sequence = \<lparr>seq_begin = 103, seq_size = 1\<rparr>\<rparr>,
          \<lparr>position = 4, sequence = \<lparr>seq_begin = 0, seq_size = 0\<rparr>\<rparr>]"
  have h1: "journal_inv ?J" by (simp add: journal_inv_initialize)
  have h2: "valid_record_call ?J ?bp ?alt" by (simp add: journal_defs)
  have h3: "record_journal ?J ?bp ?alt = Some (?J', 1)" by (simp add: journal_defs)
  have h4: "valid_record_call ?J' ?bp' ?orig" by (simp add: journal_defs)
  have h5: "location ?J' (low_breakend ?bp') = location ?J (low_breakend ?bp)"
    by (simp add: journal_defs)
  have h6: "location ?J' (high_breakend ?bp') = location ?J (low_breakend ?bp) + seq_size ?alt"
    by (simp add: journal_defs)
  have h7: "spell ?mem ?orig =
           take (location ?J (high_breakend ?bp) - location ?J (low_breakend ?bp))
             (drop (location ?J (low_breakend ?bp)) (derived ?mem ?J))"
    by (simp add: journal_defs derived_def upt_rec)
  have h8: "record_journal ?J' ?bp' ?orig = Some (?J'', 1)" by (simp add: journal_defs)
  from substitution_undo [OF h1 h2 h3 h4 h5 h6 h7 h8]
  have "derived ?mem ?J'' = derived ?mem ?J" and "check_journal_invariants ?J''"
    by blast+
  with h1 h2 h3 h8 show ?thesis by blast
qed

subsection \<open>C10: equality of records\<close>

text \<open>
  C10. Two records compare equal exactly when they have the same position and their
  segments begin at the same address and have the same size, that is, when they are the
  same record value; two records whose segments spell the same symbols from different
  memory compare unequal.
\<close>

theorem record_equality_by_identity:
  "(record_eq lhs rhs \<longleftrightarrow>
      position lhs = position rhs \<and>
      seq_begin (sequence lhs) = seq_begin (sequence rhs) \<and>
      seq_size (sequence lhs) = seq_size (sequence rhs)) \<and>
   (record_eq lhs rhs \<longleftrightarrow> lhs = rhs) \<and>
   (spell mem (sequence lhs) = spell mem (sequence rhs) \<and> sequence lhs \<noteq> sequence rhs
      \<longrightarrow> \<not> record_eq lhs rhs)"
proof -
  have a: "record_eq lhs rhs \<longleftrightarrow> lhs = rhs"
    by (cases lhs, cases rhs) (auto simp: record_eq_def)
  then show ?thesis by (auto simp: record_eq_def)
qed

theorem record_equality_by_identity_witness:
  "spell (\<lambda>a. CHR ''A'') (sequence \<lparr>position = 0, sequence = \<lparr>seq_begin = 100, seq_size = 2\<rparr>\<rparr>) =
   spell (\<lambda>a. CHR ''A'') (sequence \<lparr>position = 0, sequence = \<lparr>seq_begin = 200, seq_size = 2\<rparr>\<rparr>) \<and>
   sequence \<lparr>position = 0, sequence = \<lparr>seq_begin = 100, seq_size = 2\<rparr>\<rparr> \<noteq>
   sequence \<lparr>position = 0, sequence = \<lparr>seq_begin = 200, seq_size = 2\<rparr>\<rparr> \<and>
   \<not> record_eq \<lparr>position = 0, sequence = \<lparr>seq_begin = 100, seq_size = 2\<rparr>\<rparr>
                \<lparr>position = 0, sequence = \<lparr>seq_begin = 200, seq_size = 2\<rparr>\<rparr>"
proof -
  have "spell (\<lambda>a. CHR ''A'') \<lparr>seq_begin = 100, seq_size = 2\<rparr> =
        spell (\<lambda>a. CHR ''A'') \<lparr>seq_begin = 200, seq_size = 2\<rparr>"
    by (simp add: spell_def seq_end_def)
  with record_equality_by_identity
         [of "\<lparr>position = 0, sequence = \<lparr>seq_begin = 100, seq_size = 2\<rparr>\<rparr>"
             "\<lparr>position = 0, sequence = \<lparr>seq_begin = 200, seq_size = 2\<rparr>\<rparr>" "\<lambda>a. CHR ''A''"]
  show ?thesis by simp
qed

end
